theory Spec2Isabelle
  imports Main "HOL-Library.Word" "HOL-Library.AList"
begin

section \<open>lmdbstore: a single-writer dispatcher over an embedded key-value engine\<close>

text \<open>
  The development embeds \<^verbatim>\<open>lmdbstore.go\<close>. The storage engine (package
  \<^verbatim>\<open>lmdb\<close>) and the codec (package \<^verbatim>\<open>msgpack\<close>) are external
  collaborators: the engine is modelled as named key-value tables with the answers it gives
  for a key that is absent or of a size it does not support, the codec functions are
  parameters.
\<close>

subsection \<open>Errors and bytes\<close>

type_synonym bytes = "8 word list"

text \<open>
  \<open>ErrNotFound\<close> is the engine's not-found signal (\<^verbatim>\<open>MDB_NOTFOUND\<close>),
  \<open>ErrBadValSize\<close> its refusal of a key of a size it does not support
  (\<^verbatim>\<open>MDB_BAD_VALSIZE\<close>), \<open>ErrEngine\<close> any other engine error, \<open>ErrMsg\<close> an error
  built by \<^verbatim>\<open>errors.New\<close> or \<^verbatim>\<open>fmt.Errorf\<close>, and \<open>Panic\<close> the run-time panic
  of calling a nil function value.
\<close>

datatype error = ErrNotFound | ErrBadValSize | ErrEngine nat | ErrMsg string | Panic

text \<open>
  The built-in \<^verbatim>\<open>copy(dst, src)\<close> of Go copies \<open>min (len dst) (len src)\<close>
  elements and leaves the rest of \<open>dst\<close> as it was; \<^verbatim>\<open>make([]byte, n)\<close> is
  \<open>n\<close> zero bytes.
\<close>

definition go_copy :: "'a list \<Rightarrow> 'a list \<Rightarrow> 'a list" where
  "go_copy dst src =
     take (min (length dst) (length src)) src @ drop (min (length dst) (length src)) dst"

definition make_bytes :: "nat \<Rightarrow> bytes" where
  "make_bytes n = replicate n 0"

subsection \<open>The storage engine (external collaborator)\<close>

type_synonym lmdb_DBI = nat

text \<open>
  What a transaction sees: the named databases that are open, and one key-value table for
  each database identifier.
\<close>

record lmdb_Txn =
  dbis :: "(string \<times> lmdb_DBI) list"
  tables :: "lmdb_DBI \<Rightarrow> bytes \<Rightarrow> bytes option"

text \<open>
  The environment: its committed state, the number of write transactions that are active,
  and whether \<^verbatim>\<open>Sync\<close> and \<^verbatim>\<open>Close\<close> have been called on it. The two flags
  record the calls only: what the engine does with a transaction on a closed environment is
  not part of the model.
\<close>

record lmdb_Env =
  committed :: lmdb_Txn
  writers :: nat
  synced :: bool
  closed :: bool

type_synonym lmdb_TxnOp = "lmdb_Txn \<Rightarrow> error option \<times> lmdb_Txn"

text \<open>
  The engine searches for no key of length zero: \<^verbatim>\<open>txn.Get\<close> and \<^verbatim>\<open>txn.Del\<close>
  answer \<^verbatim>\<open>MDB_BAD_VALSIZE\<close> for it before they look anything up. \<^verbatim>\<open>txn.Put\<close>
  refuses in the same way a key of length zero and a key longer than the engine's maximal
  key size, 511 bytes.
\<close>

definition lmdb_MaxKeySize :: nat where
  "lmdb_MaxKeySize = 511"

definition txn_Get :: "lmdb_Txn \<Rightarrow> lmdb_DBI \<Rightarrow> bytes \<Rightarrow> error + bytes" where
  "txn_Get txn d key =
     (if length key = 0 then Inl ErrBadValSize
      else (case tables txn d key of None \<Rightarrow> Inl ErrNotFound | Some v \<Rightarrow> Inr v))"

text \<open>\<^verbatim>\<open>txn.Put\<close> with flags 0: the key maps to the new value afterwards.\<close>

definition txn_Put :: "lmdb_Txn \<Rightarrow> lmdb_DBI \<Rightarrow> bytes \<Rightarrow> bytes \<Rightarrow> error option \<times> lmdb_Txn" where
  "txn_Put txn d key val =
     (if length key = 0 \<or> lmdb_MaxKeySize < length key then (Some ErrBadValSize, txn)
      else (None, txn\<lparr>tables := (tables txn)(d := (tables txn d)(key \<mapsto> val))\<rparr>))"

text \<open>
  \<^verbatim>\<open>txn.Del\<close>: the value argument is ignored for a database without duplicate keys;
  an absent key is the engine's not-found error.
\<close>

definition txn_Del :: "lmdb_Txn \<Rightarrow> lmdb_DBI \<Rightarrow> bytes \<Rightarrow> bytes \<Rightarrow> error option \<times> lmdb_Txn" where
  "txn_Del txn d key val =
     (if length key = 0 then (Some ErrBadValSize, txn)
      else (case tables txn d key of
              None \<Rightarrow> (Some ErrNotFound, txn)
            | Some v \<Rightarrow> (None, txn\<lparr>tables := (tables txn)(d := (tables txn d)(key := None))\<rparr>)))"

text \<open>\<^verbatim>\<open>txn.Drop(dbi, false)\<close> empties the database and keeps its identifier.\<close>

definition txn_Drop :: "lmdb_Txn \<Rightarrow> lmdb_DBI \<Rightarrow> error option \<times> lmdb_Txn" where
  "txn_Drop txn d = (None, txn\<lparr>tables := (tables txn)(d := Map.empty)\<rparr>)"

text \<open>
  \<^verbatim>\<open>txn.CreateDBI\<close> opens the named database, creating it when it does not exist.
  A name that is open already yields the identifier it has; a new one gets a fresh
  identifier and an empty table. \<open>fault\<close> says for which names the engine refuses.
\<close>

definition fresh_dbi :: "(string \<times> lmdb_DBI) list \<Rightarrow> lmdb_DBI" where
  "fresh_dbi ds = Suc (fold max (map snd ds) 1)"

definition txn_CreateDBI ::
  "(string \<Rightarrow> error option) \<Rightarrow> lmdb_Txn \<Rightarrow> string \<Rightarrow> (error + lmdb_DBI) \<times> lmdb_Txn" where
  "txn_CreateDBI fault txn name =
     (case fault name of
        Some err \<Rightarrow> (Inl err, txn)
      | None \<Rightarrow>
         (case map_of (dbis txn) name of
            Some d \<Rightarrow> (Inr d, txn)
          | None \<Rightarrow>
             (let d = fresh_dbi (dbis txn)
              in (Inr d, txn\<lparr>dbis := dbis txn @ [(name, d)],
                                 tables := (tables txn)(d := Map.empty)\<rparr>))))"

text \<open>
  A write transaction: begin, run the operation on the committed state, then commit when the
  operation returns nil and abort (no change) when it returns an error.
  \<^verbatim>\<open>Update\<close> and \<^verbatim>\<open>UpdateLocked\<close> differ only in who locks the OS thread.
\<close>

definition txn_begin :: "lmdb_Env \<Rightarrow> lmdb_Env" where
  "txn_begin e = e\<lparr>writers := Suc (writers e)\<rparr>"

definition txn_finish :: "lmdb_TxnOp \<Rightarrow> lmdb_Env \<Rightarrow> error option \<times> lmdb_Env" where
  "txn_finish op e =
     (case op (committed e) of
        (Some err, txn') \<Rightarrow> (Some err, e\<lparr>writers := writers e - 1\<rparr>)
      | (None, txn') \<Rightarrow> (None, e\<lparr>committed := txn', writers := writers e - 1\<rparr>))"

definition UpdateLocked :: "lmdb_Env \<Rightarrow> lmdb_TxnOp \<Rightarrow> error option \<times> lmdb_Env" where
  "UpdateLocked e op = txn_finish op (txn_begin e)"

definition Update :: "lmdb_Env \<Rightarrow> lmdb_TxnOp \<Rightarrow> error option \<times> lmdb_Env" where
  "Update e op = UpdateLocked e op"

text \<open>A read transaction runs its function on the committed state and changes nothing.\<close>

definition View :: "lmdb_Env \<Rightarrow> (lmdb_Txn \<Rightarrow> 'r) \<Rightarrow> 'r" where
  "View e f = f (committed e)"

definition env_Sync :: "lmdb_Env \<Rightarrow> lmdb_Env" where
  "env_Sync e = e\<lparr>synced := True\<rparr>"

definition env_Close :: "lmdb_Env \<Rightarrow> lmdb_Env" where
  "env_Close e = e\<lparr>closed := True\<rparr>"

subsection \<open>Configuration and handles\<close>

text \<open>
  A function value of Go is \<open>Some f\<close>, the nil function is \<open>None\<close>. \<^verbatim>\<open>Marshal\<close>
  maps a value to bytes or an error; \<^verbatim>\<open>Unmarshal\<close> takes the bytes and the
  destination and returns the error and the destination as it leaves it. A channel is its
  identity; the nil channel is \<open>None\<close>.
\<close>

type_synonym 'v marshal_fn = "('v \<Rightarrow> error + bytes) option"
type_synonym 'v unmarshal_fn = "(bytes \<Rightarrow> 'v \<Rightarrow> error option \<times> 'v) option"
type_synonym chan = nat

record 'v DbConfig =
  DbName :: string
  Marshal :: "'v marshal_fn"
  Unmarshal :: "'v unmarshal_fn"

record 'v LmdbEnvConfig =
  OpenPath :: string
  OpenFlag :: nat
  OpenFSMode :: nat
  MapSize :: int
  MaxReaders :: int
  Databases :: "'v DbConfig list"
  Marshal :: "'v marshal_fn"
  Unmarshal :: "'v unmarshal_fn"

text \<open>
  \<^verbatim>\<open>DefaultLmdbConfig\<close>; the two msgpack functions are parameters. The mode is
  octal 0644.
\<close>

definition DefaultLmdbConfig ::
  "('v \<Rightarrow> error + bytes) \<Rightarrow> (bytes \<Rightarrow> 'v \<Rightarrow> error option \<times> 'v) \<Rightarrow> 'v LmdbEnvConfig" where
  "DefaultLmdbConfig msgpack_MarshalAsArray msgpack_UnmarshalAsArray =
     \<lparr>OpenPath = ''.'', OpenFlag = 0, OpenFSMode = 420, MapSize = 2 ^ 30, MaxReaders = 1,
      Databases = [\<lparr>DbName = ''default'', DbConfig.Marshal = None, DbConfig.Unmarshal = None\<rparr>],
      Marshal = Some msgpack_MarshalAsArray, Unmarshal = Some msgpack_UnmarshalAsArray\<rparr>"

text \<open>
  \<^verbatim>\<open>Db\<close>. A handle is a pointer in the source, so two handles with equal fields are
  still two handles: \<open>ptr\<close> is the address of the struct. The field
  \<^verbatim>\<open>lmdbEnv\<close> points to the one environment of the process, which the operations
  take as an argument.
\<close>

record 'v Db =
  ptr :: nat
  dbi :: lmdb_DBI
  updateWorkerChan :: "chan option"
  marshal :: "'v marshal_fn"
  unmarshal :: "'v unmarshal_fn"

text \<open>
  \<^verbatim>\<open>LmdbEnv\<close>. The map \<^verbatim>\<open>databases\<close> is an association list with one
  entry for each key, so that \<^verbatim>\<open>len\<close> is its length.
\<close>

record 'v LmdbEnv =
  databases :: "(string \<times> 'v Db) list"
  updateWorkerChan :: "chan option"
  quitChan :: "chan option"
  marshal :: "'v marshal_fn"
  unmarshal :: "'v unmarshal_fn"

definition GetSingleDatabase :: "'v LmdbEnv \<Rightarrow> 'v Db option \<times> error option" where
  "GetSingleDatabase l =
     (if length (databases l) \<noteq> 1
      then (None, Some (ErrMsg ''number of databases configured LmdbEnv is not 1''))
      else (case databases l of
              (k, v) # rest \<Rightarrow> (Some v, None)
            | [] \<Rightarrow> (None, Some (ErrMsg ''no database is configured in LmdbEnv''))))"

definition GetDatabase :: "'v LmdbEnv \<Rightarrow> string \<Rightarrow> 'v Db option" where
  "GetDatabase l dbName = map_of (databases l) dbName"

subsection \<open>Initialisation\<close>

text \<open>
  The calls \<^verbatim>\<open>NewLmdb\<close> makes on the engine, and the start of the worker
  goroutine, are recorded in the order they happen. The engine is a parameter: which calls
  it refuses, and the environment that \<^verbatim>\<open>Open\<close> finds at the path.
\<close>

datatype call =
    NewEnv
  | SetMapSize int
  | SetMaxDBs nat
  | SetMaxReaders int
  | Open string nat nat
  | CreateDBI string

datatype effect = Call call | GoWorker

record engine =
  refuses :: "call \<Rightarrow> error option"
  found :: lmdb_Env

text \<open>Calls made one after the other, each followed by \<^verbatim>\<open>if err != nil { return nil, err }\<close>.\<close>

fun engine_calls :: "(call \<Rightarrow> error option) \<Rightarrow> call list \<Rightarrow> effect list \<times> error option" where
  "engine_calls f [] = ([], None)"
| "engine_calls f (c # cs) =
     (case f c of
        Some err \<Rightarrow> ([Call c], Some err)
      | None \<Rightarrow> (case engine_calls f cs of (tr, r) \<Rightarrow> (Call c # tr, r)))"

text \<open>
  The loop over \<^verbatim>\<open>config.Databases\<close>. \<open>n\<close> is the address of the next
  \<^verbatim>\<open>&Db{...}\<close>: the handle of the entry at index \<open>i\<close> has \<open>ptr = i\<close>. The codec
  of every handle is the one of \<open>lmdbHandler\<close>; the entry's own
  \<^verbatim>\<open>Marshal\<close> and \<^verbatim>\<open>Unmarshal\<close> are not read. The closure given to
  \<^verbatim>\<open>Update\<close> assigns \<^verbatim>\<open>db.dbi\<close> from \<^verbatim>\<open>txn.CreateDBI\<close>, which runs on
  the committed state: \<open>created\<close> is that call.
\<close>

fun create_databases ::
  "(call \<Rightarrow> error option) \<Rightarrow> 'v DbConfig list \<Rightarrow> nat \<Rightarrow> 'v LmdbEnv \<Rightarrow> lmdb_Env
     \<Rightarrow> effect list \<times> (error + 'v LmdbEnv \<times> lmdb_Env)" where
  "create_databases f [] n lmdbHandler lmdbEnv = ([], Inr (lmdbHandler, lmdbEnv))"
| "create_databases f (dbConfig # rest) n lmdbHandler lmdbEnv =
     (let db = \<lparr>ptr = n, dbi = 0,
                 updateWorkerChan = LmdbEnv.updateWorkerChan lmdbHandler,
                 marshal = LmdbEnv.marshal lmdbHandler,
                 unmarshal = LmdbEnv.unmarshal lmdbHandler\<rparr>;
          created = txn_CreateDBI (\<lambda>name. f (CreateDBI name)) (committed lmdbEnv) (DbName dbConfig);
          db = db\<lparr>dbi := (case fst created of Inl err \<Rightarrow> 0 | Inr d \<Rightarrow> d)\<rparr>
      in case Update lmdbEnv
                (\<lambda>txn. case txn_CreateDBI (\<lambda>name. f (CreateDBI name)) txn (DbName dbConfig) of
                         (Inl err, txn') \<Rightarrow> (Some err, txn')
                       | (Inr d, txn') \<Rightarrow> (None, txn')) of
           (Some err, lmdbEnv') \<Rightarrow>
             ([Call (CreateDBI (DbName dbConfig))],
              Inl (ErrMsg (''error creating database '' @ DbName dbConfig)))
         | (None, lmdbEnv') \<Rightarrow>
             (case create_databases f rest (Suc n)
                     (lmdbHandler\<lparr>databases :=
                        AList.update (DbName dbConfig) db (databases lmdbHandler)\<rparr>)
                     lmdbEnv'
              of (tr, r) \<Rightarrow> (Call (CreateDBI (DbName dbConfig)) # tr, r)))"

definition NewLmdb ::
  "engine \<Rightarrow> 'v LmdbEnvConfig \<Rightarrow> effect list \<times> (error + 'v LmdbEnv \<times> lmdb_Env)" where
  "NewLmdb eng config =
     (if length (Databases config) < 1 then ([], Inl (ErrMsg ''no databases is setup''))
      else
        (case engine_calls (refuses eng)
                [NewEnv, SetMapSize (MapSize config), SetMaxDBs (length (Databases config)),
                 SetMaxReaders (MaxReaders config),
                 Open (OpenPath config) (OpenFlag config) (OpenFSMode config)] of
           (tr, Some err) \<Rightarrow> (tr, Inl err)
         | (tr, None) \<Rightarrow>
            (let lmdbHandler = \<lparr>databases = [], updateWorkerChan = Some 0, quitChan = None,
                                 marshal = Marshal config, unmarshal = Unmarshal config\<rparr>
             in case create_databases (refuses eng) (Databases config) 0 lmdbHandler (found eng) of
                  (tr', Inl err) \<Rightarrow> (tr @ tr', Inl err)
                | (tr', Inr r) \<Rightarrow> (tr @ tr' @ [GoWorker], Inr r))))"

subsection \<open>Operations of a database handle\<close>

text \<open>
  \<^verbatim>\<open>UpdateTxn\<close> as one caller sees it while the worker waits at its
  \<^verbatim>\<open>select\<close>: the send on the handle's channel is taken by the worker, which runs
  \<^verbatim>\<open>UpdateLocked\<close> and sends the error back. A send on the nil channel blocks for
  ever: the call does not return, which is \<open>None\<close>.
\<close>

definition UpdateTxn ::
  "'v Db \<Rightarrow> lmdb_TxnOp \<Rightarrow> lmdb_Env \<Rightarrow> (error option \<times> lmdb_Env) option" where
  "UpdateTxn s op e =
     (case Db.updateWorkerChan s of
        None \<Rightarrow> None
      | Some c \<Rightarrow> Some (UpdateLocked e op))"

text \<open>
  The argument \<^verbatim>\<open>value interface{}\<close> of \<^verbatim>\<open>Put\<close> with its type switch:
  \<^verbatim>\<open>[]byte\<close> or anything else.
\<close>

datatype 'v go_value = Bytes bytes | Value 'v

definition Put ::
  "'v Db \<Rightarrow> bytes \<Rightarrow> 'v go_value \<Rightarrow> lmdb_Env \<Rightarrow> (error option \<times> lmdb_Env) option" where
  "Put s key val =
     UpdateTxn s (\<lambda>txn.
       case val of
         Bytes v \<Rightarrow> txn_Put txn (dbi s) key v
       | Value v \<Rightarrow>
           (case Db.marshal s of
              None \<Rightarrow> (Some Panic, txn)
            | Some m \<Rightarrow>
                (case m v of
                   Inl err \<Rightarrow> (Some err, txn)
                 | Inr b \<Rightarrow> txn_Put txn (dbi s) key b)))"

definition zeroLengthBytes :: bytes where
  "zeroLengthBytes = make_bytes 0"

definition Del :: "'v Db \<Rightarrow> bytes \<Rightarrow> lmdb_Env \<Rightarrow> (error option \<times> lmdb_Env) option" where
  "Del s key = UpdateTxn s (\<lambda>txn. txn_Del txn (dbi s) key zeroLengthBytes)"

definition Drop :: "'v Db \<Rightarrow> lmdb_Env \<Rightarrow> (error option \<times> lmdb_Env) option" where
  "Drop s = UpdateTxn s (\<lambda>txn. txn_Drop txn (dbi s))"

text \<open>
  \<^verbatim>\<open>Get\<close>: the named result \<^verbatim>\<open>b\<close> is the nil slice when the closure
  runs, and \<^verbatim>\<open>copy(b, bOri)\<close> copies into it.
\<close>

definition Get :: "'v Db \<Rightarrow> bytes \<Rightarrow> lmdb_Env \<Rightarrow> bytes \<times> error option" where
  "Get s key e =
     (let b = []
      in View e (\<lambda>txn.
           case txn_Get txn (dbi s) key of
             Inl err \<Rightarrow> (b, Some err)
           | Inr bOri \<Rightarrow> (go_copy b bOri, None)))"

text \<open>
  \<^verbatim>\<open>GetAndMarshal\<close> returns the error and the destination as the call leaves it; the
  decode function gets the copy \<^verbatim>\<open>b\<close> and the destination (\<^verbatim>\<open>&dest\<close>).
\<close>

definition GetAndMarshal :: "'v Db \<Rightarrow> bytes \<Rightarrow> 'v \<Rightarrow> lmdb_Env \<Rightarrow> error option \<times> 'v" where
  "GetAndMarshal s key dest e =
     View e (\<lambda>txn.
       case txn_Get txn (dbi s) key of
         Inl err \<Rightarrow> (Some err, dest)
       | Inr bOri \<Rightarrow>
           if length bOri = 0 then (Some (ErrMsg ''zero length bytes from database''), dest)
           else
             (let b = go_copy (make_bytes (length bOri)) bOri
              in case Db.unmarshal s of
                   None \<Rightarrow> (Some Panic, dest)
                 | Some u \<Rightarrow> u b dest))"

subsection \<open>The worker goroutine and its callers\<close>

text \<open>
  The goroutine started by \<^verbatim>\<open>NewLmdb\<close> and the goroutines that call
  \<^verbatim>\<open>UpdateTxn\<close> and \<^verbatim>\<open>Close\<close> are a transition system. Both channels are
  unbuffered: a send and a receive on the same channel happen together, and nothing happens
  on the nil channel. A caller is identified by a number, which also stands for the reply
  channel \<^verbatim>\<open>res\<close> of its request.
\<close>

datatype caller =
    Idle
  | Sending "chan option" lmdb_TxnOp
  | Awaiting lmdb_TxnOp
  | Returned lmdb_TxnOp "error option"
  | Closing
  | Closed

text \<open>
  \<open>Sending c op\<close>: in \<^verbatim>\<open>UpdateTxn(op)\<close>, blocked in the send of \<open>op\<close> on the
  handle's channel \<open>c\<close>; \<open>Awaiting op\<close>: the request handed over, blocked in
  \<^verbatim>\<open><-res\<close>; \<open>Returned op r\<close>: \<^verbatim>\<open>UpdateTxn(op)\<close> has returned \<open>r\<close>; \<open>Closing\<close>:
  in \<^verbatim>\<open>Close\<close>, blocked in the send on \<^verbatim>\<open>e.quitChan\<close>; \<open>Closed\<close>:
  \<^verbatim>\<open>Close\<close> has returned.
\<close>

fun resting :: "caller \<Rightarrow> bool" where
  "resting Idle = True"
| "resting (Returned op r) = True"
| "resting Closed = True"
| "resting c = False"

text \<open>
  The worker: at the \<^verbatim>\<open>select\<close>; holding the request of caller \<open>i\<close> before
  \<^verbatim>\<open>UpdateLocked\<close>; inside \<^verbatim>\<open>UpdateLocked\<close> with the write transaction begun;
  blocked in \<^verbatim>\<open>op.res <- \<close> with the result; in the quit branch before
  \<^verbatim>\<open>Sync\<close>, and before \<^verbatim>\<open>Close\<close>. The quit branch has no return, so the
  loop goes on to the \<^verbatim>\<open>select\<close> after it.
\<close>

datatype worker =
    Select
  | Received nat lmdb_TxnOp
  | Running nat lmdb_TxnOp
  | Replying nat "error option"
  | Quit_Sync
  | Quit_Close

text \<open>
  \<open>received\<close> and \<open>executed\<close> list the requests in the order the worker took them
  from the channel and in the order their transactions ended.
\<close>

record 'v sys =
  handler :: "'v LmdbEnv"
  env :: lmdb_Env
  worker :: worker
  callers :: "nat \<Rightarrow> caller"
  received :: "(nat \<times> lmdb_TxnOp) list"
  executed :: "(nat \<times> lmdb_TxnOp) list"

inductive step :: "'v sys \<Rightarrow> 'v sys \<Rightarrow> bool" where
  call_UpdateTxn:
    "resting (callers (s::'v sys) i) \<Longrightarrow>
     step s (s\<lparr>callers := (callers s)(i := Sending (Db.updateWorkerChan (d::'v Db)) op)\<rparr>)"
| call_Close:
    "resting (callers s i) \<Longrightarrow>
     step s (s\<lparr>callers := (callers s)(i := Closing)\<rparr>)"
| receive_op:
    "worker s = Select \<Longrightarrow> callers s i = Sending (Some c) op \<Longrightarrow>
     LmdbEnv.updateWorkerChan (handler s) = Some c \<Longrightarrow>
     step s (s\<lparr>worker := Received i op, callers := (callers s)(i := Awaiting op),
               received := received s @ [(i, op)]\<rparr>)"
| begin_txn:
    "worker s = Received i op \<Longrightarrow>
     step s (s\<lparr>worker := Running i op, env := txn_begin (env s)\<rparr>)"
| finish_txn:
    "worker s = Running i op \<Longrightarrow>
     step s (s\<lparr>worker := Replying i (fst (txn_finish op (env s))),
               env := snd (txn_finish op (env s)),
               executed := executed s @ [(i, op)]\<rparr>)"
| reply:
    "worker s = Replying i r \<Longrightarrow> callers s i = Awaiting op \<Longrightarrow>
     step s (s\<lparr>worker := Select, callers := (callers s)(i := Returned op r)\<rparr>)"
| receive_quit:
    "worker s = Select \<Longrightarrow> callers s i = Closing \<Longrightarrow>
     quitChan (handler s) = Some q \<Longrightarrow>
     step s (s\<lparr>worker := Quit_Sync, callers := (callers s)(i := Closed)\<rparr>)"
| quit_sync:
    "worker s = Quit_Sync \<Longrightarrow>
     step s (s\<lparr>worker := Quit_Close, env := env_Sync (env s)\<rparr>)"
| quit_close:
    "worker s = Quit_Close \<Longrightarrow>
     step s (s\<lparr>worker := Select, env := env_Close (env s)\<rparr>)"

text \<open>The state in which \<^verbatim>\<open>NewLmdb\<close> returns: the worker started, nobody calling.\<close>

definition boot :: "'v LmdbEnv \<Rightarrow> lmdb_Env \<Rightarrow> 'v sys" where
  "boot l e = \<lparr>handler = l, env = e, worker = Select, callers = (\<lambda>i. Idle),
              received = [], executed = []\<rparr>"

text \<open>The requests of a list run one after the other, each in its own write transaction.\<close>

definition run_requests :: "lmdb_Env \<Rightarrow> lmdb_TxnOp list \<Rightarrow> lmdb_Env" where
  "run_requests e ops = foldl (\<lambda>e' op. snd (UpdateLocked e' op)) e ops"

text \<open>
  The request the worker holds but has not finished, and the number of write transactions
  the worker has open.
\<close>

fun in_flight :: "worker \<Rightarrow> (nat \<times> lmdb_TxnOp) list" where
  "in_flight (Received i op) = [(i, op)]"
| "in_flight (Running i op) = [(i, op)]"
| "in_flight w = []"

fun open_txns :: "worker \<Rightarrow> nat" where
  "open_txns (Running i op) = 1"
| "open_txns w = 0"

text \<open>The caller whose request the worker holds or whose reply it is about to send.\<close>

fun holder :: "worker \<Rightarrow> nat option" where
  "holder (Received i op) = Some i"
| "holder (Running i op) = Some i"
| "holder (Replying i r) = Some i"
| "holder w = None"

text \<open>
  The state after the worker, waiting at its \<^verbatim>\<open>select\<close>, has taken the request \<open>op\<close>
  of caller \<open>i\<close>, run it in a write transaction and sent the result back.
\<close>

definition served :: "'v sys \<Rightarrow> nat \<Rightarrow> lmdb_TxnOp \<Rightarrow> 'v sys" where
  "served s i op =
     s\<lparr>env := snd (UpdateLocked (env s) op),
       callers := (callers s)(i := Returned op (fst (UpdateLocked (env s) op))),
       received := received s @ [(i, op)],
       executed := executed s @ [(i, op)]\<rparr>"

text \<open>
  What holds of the worker, its callers and the environment in every state reached from a
  start with the environment \<open>e\<close>: the open write transactions are those of the worker; the
  requests received are the executed ones followed by the one in the worker's hands; the
  committed state is that of the executed requests run one after the other; a caller waits
  for a reply only while the worker has its request; the request in the worker's hands is the
  one its caller sent; a reply about to be sent, and a result a caller has got, is the result
  of that caller's request run after the requests executed before it.
\<close>

definition dispatcher_inv :: "lmdb_Env \<Rightarrow> 'v sys \<Rightarrow> bool" where
  "dispatcher_inv e s \<longleftrightarrow>
     writers (env s) = open_txns (worker s)
   \<and> received s = executed s @ in_flight (worker s)
   \<and> committed (env s) = committed (run_requests e (map snd (executed s)))
   \<and> (\<forall>i op. callers s i = Awaiting op \<longrightarrow> holder (worker s) = Some i)
   \<and> (\<forall>i op. worker s = Received i op \<or> worker s = Running i op \<longrightarrow>
         callers s i = Awaiting op)
   \<and> (\<forall>i r. worker s = Replying i r \<longrightarrow>
         (\<exists>op. callers s i = Awaiting op \<and> executed s \<noteq> [] \<and> last (executed s) = (i, op)
            \<and> r = fst (UpdateLocked
                        (run_requests e (map snd (butlast (executed s)))) op)))
   \<and> (\<forall>i op r. callers s i = Returned op r \<longrightarrow>
         (\<exists>k<length (executed s). executed s ! k = (i, op)
            \<and> r = fst (UpdateLocked
                        (run_requests e (map snd (take k (executed s)))) op)))"

subsection \<open>Concrete configurations used as examples\<close>

definition empty_Env :: lmdb_Env where
  "empty_Env = \<lparr>committed = \<lparr>dbis = [], tables = (\<lambda>d. Map.empty)\<rparr>,
                 writers = 0, synced = False, closed = False\<rparr>"

definition willing_engine :: engine where
  "willing_engine = \<lparr>refuses = (\<lambda>c. None), found = empty_Env\<rparr>"

text \<open>Two codecs for natural numbers that differ in their first byte.\<close>

definition tagged_Marshal :: "8 word \<Rightarrow> nat \<Rightarrow> error + bytes" where
  "tagged_Marshal t v = Inr [t, of_nat v]"

definition tagged_Unmarshal :: "8 word \<Rightarrow> bytes \<Rightarrow> nat \<Rightarrow> error option \<times> nat" where
  "tagged_Unmarshal t b dest =
     (case b of
        [t', x] \<Rightarrow> if t' = t then (None, unat x) else (Some (ErrMsg ''wrong tag''), dest)
      | _ \<Rightarrow> (Some (ErrMsg ''wrong length''), dest))"

text \<open>A handle as \<^verbatim>\<open>NewLmdb\<close> makes it, and an environment that holds one key.\<close>

definition example_Db :: "nat Db" where
  "example_Db = \<lparr>ptr = 0, dbi = 2, updateWorkerChan = Some 0,
                  marshal = Some (tagged_Marshal 1), unmarshal = Some (tagged_Unmarshal 1)\<rparr>"

definition example_Env :: "bytes \<Rightarrow> bytes \<Rightarrow> lmdb_Env" where
  "example_Env key val =
     \<lparr>committed = \<lparr>dbis = [(''default'', 2)], tables = (\<lambda>d. Map.empty)(2 := [key \<mapsto> val])\<rparr>,
      writers = 0, synced = False, closed = False\<rparr>"

definition example_config :: "nat LmdbEnvConfig" where
  "example_config = DefaultLmdbConfig (tagged_Marshal 1) (tagged_Unmarshal 1)"

text \<open>
  One database whose entry carries its own codec (tag 1) under an environment codec (tag 2);
  one database with no codec at either level; and a list that names \<open>a\<close> twice.
\<close>

definition override_config :: "nat LmdbEnvConfig" where
  "override_config =
     example_config\<lparr>
       Databases := [\<lparr>DbName = ''a'', DbConfig.Marshal = Some (tagged_Marshal 1),
                      DbConfig.Unmarshal = Some (tagged_Unmarshal 1)\<rparr>],
       Marshal := Some (tagged_Marshal 2), Unmarshal := Some (tagged_Unmarshal 2)\<rparr>"

definition bare_config :: "nat LmdbEnvConfig" where
  "bare_config =
     example_config\<lparr>
       Databases := [\<lparr>DbName = ''a'', DbConfig.Marshal = None, DbConfig.Unmarshal = None\<rparr>],
       Marshal := None, Unmarshal := None\<rparr>"

definition duplicate_config :: "nat LmdbEnvConfig" where
  "duplicate_config =
     example_config\<lparr>
       Databases := [\<lparr>DbName = ''a'', DbConfig.Marshal = None, DbConfig.Unmarshal = None\<rparr>,
                    \<lparr>DbName = ''b'', DbConfig.Marshal = None, DbConfig.Unmarshal = None\<rparr>,
                    \<lparr>DbName = ''a'', DbConfig.Marshal = None, DbConfig.Unmarshal = None\<rparr>]\<rparr>"

text \<open>
  The closure that \<^verbatim>\<open>Put\<close> submits for raw bytes at the key \<open>[107]\<close> of database 2.
  In \<open>example_done\<close> caller 0 has called with the value \<open>[1]\<close> and caller 1 with the value
  \<open>[2]\<close>, the worker has served caller 1 first and caller 0 after it.
\<close>

definition example_put :: "bytes \<Rightarrow> lmdb_TxnOp" where
  "example_put v txn = txn_Put txn 2 [107] v"

definition example_handler :: "nat LmdbEnv" where
  "example_handler = \<lparr>databases = [(''default'', example_Db)], updateWorkerChan = Some 0,
     quitChan = None, marshal = Some (tagged_Marshal 1), unmarshal = Some (tagged_Unmarshal 1)\<rparr>"

definition example_called :: "nat sys" where
  "example_called =
     (boot example_handler (example_Env [108] [0]))\<lparr>callers :=
        (\<lambda>i. Idle)(0 := Sending (Some 0) (example_put [1]),
                     1 := Sending (Some 0) (example_put [2]))\<rparr>"

definition example_done :: "nat sys" where
  "example_done = served (served example_called 1 (example_put [2])) 0 (example_put [1])"

text \<open>The index of the last occurrence of an element in a list.\<close>

fun last_index :: "'a \<Rightarrow> 'a list \<Rightarrow> nat option" where
  "last_index x [] = None"
| "last_index x (y # ys) =
     (case last_index x ys of
        Some k \<Rightarrow> Some (Suc k)
      | None \<Rightarrow> if x = y then Some 0 else None)"

section \<open>Properties\<close>

subsection \<open>The engine and the operations of a handle\<close>

lemma go_copy_nil: "go_copy [] src = []"
  by (simp add: go_copy_def)

lemma go_copy_make: "go_copy (make_bytes (length src)) src = src"
  by (simp add: go_copy_def make_bytes_def)

lemma UpdateLocked_eq:
  "UpdateLocked e op =
     (case op (committed e) of
        (Some err, txn') \<Rightarrow> (Some err, e)
      | (None, txn') \<Rightarrow> (None, e\<lparr>committed := txn'\<rparr>))"
  by (simp add: UpdateLocked_def txn_finish_def txn_begin_def split: prod.splits option.splits)

text \<open>\<^verbatim>\<open>Get\<close> returns no byte, whatever the database holds.\<close>

lemma Get_eq:
  "Get s key e =
     ([], if key = [] then Some ErrBadValSize
          else (case tables (committed e) (dbi s) key of
                  None \<Rightarrow> Some ErrNotFound
                | Some v \<Rightarrow> None))"
  by (simp add: Get_def View_def txn_Get_def go_copy_nil split: option.splits)

lemma Put_Bytes_eq:
  "Put s key (Bytes v) e =
     (case Db.updateWorkerChan s of
        None \<Rightarrow> None
      | Some c \<Rightarrow>
          if key = [] \<or> lmdb_MaxKeySize < length key then Some (Some ErrBadValSize, e)
          else
            Some (None, e\<lparr>committed := (committed e)\<lparr>tables :=
                    (tables (committed e))(dbi s := (tables (committed e) (dbi s))(key \<mapsto> v))\<rparr>\<rparr>))"
  by (simp add: Put_def UpdateTxn_def UpdateLocked_eq txn_Put_def split: option.splits)

lemma Del_eq:
  "Del s key e =
     (case Db.updateWorkerChan s of
        None \<Rightarrow> None
      | Some c \<Rightarrow>
         if key = [] then Some (Some ErrBadValSize, e)
         else
           (case tables (committed e) (dbi s) key of
              None \<Rightarrow> Some (Some ErrNotFound, e)
            | Some v \<Rightarrow>
                Some (None, e\<lparr>committed := (committed e)\<lparr>tables :=
                        (tables (committed e))(dbi s := (tables (committed e) (dbi s))(key := None))\<rparr>\<rparr>)))"
  by (simp add: Del_def UpdateTxn_def UpdateLocked_eq txn_Del_def split: option.splits)

text \<open>
  For the key of length zero both \<^verbatim>\<open>Del\<close> and \<^verbatim>\<open>Get\<close> return the engine's
  refusal of the key, whatever the database holds.
\<close>

lemma Del_Get_empty_key:
  assumes "Db.updateWorkerChan s = Some c"
  shows "Del s [] e = Some (Some ErrBadValSize, e) \<and> Get s [] e = ([], Some ErrBadValSize)"
  using assms by (simp add: Del_eq Get_eq)

text \<open>
  A value that is not empty reaches the decode function as a copy with the same bytes.
\<close>

lemma GetAndMarshal_decodes_copy:
  assumes "txn_Get (committed e) (dbi s) key = Inr b" and "b \<noteq> []"
    and "Db.unmarshal s = Some u"
  shows "GetAndMarshal s key dest e = u b dest"
  using assms by (simp add: GetAndMarshal_def View_def go_copy_make Let_def)

text \<open>
  Claim C5. When the value stored at a key has length zero, \<^verbatim>\<open>GetAndMarshal\<close>
  returns the error \<open>zero length bytes from database\<close> and leaves the destination as it
  was. The result is the same for every decode function \<open>u\<close> of the handle, the nil
  function included, whose call would panic: the decode function is not called.
\<close>

theorem GetAndMarshal_zero_length:
  assumes "txn_Get (committed e) (dbi s) key = Inr b" and "length b = 0"
  shows "GetAndMarshal (s\<lparr>Db.unmarshal := u\<rparr>) key dest e =
           (Some (ErrMsg ''zero length bytes from database''), dest)"
  using assms by (simp add: GetAndMarshal_def View_def)

theorem GetAndMarshal_zero_length_witness:
  "GetAndMarshal (example_Db\<lparr>Db.unmarshal := None\<rparr>) [107] 5 (example_Env [107] []) =
     (Some (ErrMsg ''zero length bytes from database''), 5)
   \<and> GetAndMarshal (example_Db\<lparr>Db.unmarshal := Some (tagged_Unmarshal 1)\<rparr>) [107] 5
         (example_Env [107] []) =
     (Some (ErrMsg ''zero length bytes from database''), 5)"
proof -
  have g: "txn_Get (committed (example_Env [107] [])) (dbi example_Db) [107] = Inr []"
    by (simp add: txn_Get_def example_Env_def example_Db_def)
  have z: "length ([] :: bytes) = 0" by simp
  show ?thesis
    using GetAndMarshal_zero_length [OF g z, of None 5]
      GetAndMarshal_zero_length [OF g z, of "Some (tagged_Unmarshal 1)" 5]
    by simp
qed

text \<open>
  Claim C6, as the claim states it, fails for the key of length zero: the engine refuses that
  key, so \<^verbatim>\<open>Del\<close> of it, absent as it is, returns the refusal and not the not-found
  error, and so does the \<^verbatim>\<open>Get\<close> that follows.
\<close>

theorem Del_then_Get_empty_key:
  "tables (committed (example_Env [108] [1])) (dbi example_Db) [] = None
   \<and> Del example_Db [] (example_Env [108] [1]) = Some (Some ErrBadValSize, example_Env [108] [1])
   \<and> Del example_Db [] (example_Env [108] [1]) \<noteq> Some (Some ErrNotFound, example_Env [108] [1])
   \<and> Get example_Db [] (example_Env [108] [1]) = ([], Some ErrBadValSize)
   \<and> snd (Get example_Db [] (example_Env [108] [1])) \<noteq> Some ErrNotFound"
  by (simp add: Del_eq Get_eq example_Db_def example_Env_def)

text \<open>
  Claim C6, amended. For every key that is not of length zero, on a handle whose channel is
  served: \<^verbatim>\<open>Del\<close> returns, and a \<^verbatim>\<open>Get\<close> of the same key in the state it leaves
  yields the engine's not-found error; when the key is absent, \<^verbatim>\<open>Del\<close> itself returns
  that not-found error to its caller and changes nothing.
\<close>

theorem Del_then_Get_not_found:
  assumes "Db.updateWorkerChan s = Some c" and "key \<noteq> []"
  shows "(\<exists>r e'. Del s key e = Some (r, e') \<and> Get s key e' = ([], Some ErrNotFound))
       \<and> (tables (committed e) (dbi s) key = None \<longrightarrow>
            Del s key e = Some (Some ErrNotFound, e))"
  using assms by (auto simp add: Del_eq Get_eq split: option.splits)

theorem Del_then_Get_not_found_witness:
  "Del example_Db [107] (example_Env [108] [1]) = Some (Some ErrNotFound, example_Env [108] [1])
   \<and> (\<exists>e'. Del example_Db [108] (example_Env [108] [1]) = Some (None, e')
          \<and> Get example_Db [108] e' = ([], Some ErrNotFound))"
proof -
  have c: "Db.updateWorkerChan example_Db = Some 0"
    by (simp add: example_Db_def)
  have k7: "[107] \<noteq> ([] :: bytes)" and k8: "[108] \<noteq> ([] :: bytes)"
    by simp_all
  have absent: "tables (committed (example_Env [108] [1])) (dbi example_Db) [107] = None"
    by (simp add: example_Env_def example_Db_def)
  have present: "fst (the (Del example_Db [108] (example_Env [108] [1]))) = None"
    by (simp add: Del_eq example_Env_def example_Db_def)
  from Del_then_Get_not_found [OF c k7, of "example_Env [108] [1]"] absent
  have 1: "Del example_Db [107] (example_Env [108] [1]) = Some (Some ErrNotFound, example_Env [108] [1])"
    by blast
  from Del_then_Get_not_found [OF c k8, of "example_Env [108] [1]"] present
  have 2: "\<exists>e'. Del example_Db [108] (example_Env [108] [1]) = Some (None, e')
          \<and> Get example_Db [108] e' = ([], Some ErrNotFound)"
    by auto
  from 1 2 show ?thesis by blast
qed

text \<open>
  Claim C10. After a \<^verbatim>\<open>Put\<close> of the zero-length byte slice has succeeded, every
  \<^verbatim>\<open>GetAndMarshal\<close> of the key, through any handle of the same database and into any
  destination, returns the zero-length error for as long as the key holds what the
  \<^verbatim>\<open>Put\<close> stored; \<^verbatim>\<open>Get\<close> of the key returns no error.
\<close>

theorem empty_blob_not_decodable:
  assumes "Put s key (Bytes []) e = Some (None, e')"
    and "dbi s' = dbi s"
    and "tables (committed e'') (dbi s) key = tables (committed e') (dbi s) key"
  shows "GetAndMarshal s' key dest e'' = (Some (ErrMsg ''zero length bytes from database''), dest)
       \<and> Get s' key e'' = ([], None)"
  using assms
  by (auto simp add: Put_Bytes_eq Get_eq GetAndMarshal_def View_def txn_Get_def
      split: option.splits if_splits)

theorem empty_blob_not_decodable_witness:
  "Put example_Db [107] (Bytes []) (example_Env [107] [1]) = Some (None, example_Env [107] [])
   \<and> GetAndMarshal example_Db [107] 5 (example_Env [107] []) =
       (Some (ErrMsg ''zero length bytes from database''), 5)
   \<and> Get example_Db [107] (example_Env [107] []) = ([], None)"
proof -
  have p: "Put example_Db [107] (Bytes []) (example_Env [107] [1]) =
             Some (None, example_Env [107] [])"
    by (simp add: Put_Bytes_eq example_Db_def example_Env_def lmdb_MaxKeySize_def)
  from empty_blob_not_decodable [OF p refl refl, of 5] p show ?thesis by simp
qed

subsection \<open>The loop over the configured databases\<close>

lemma last_index_None: "last_index x ys = None \<longleftrightarrow> x \<notin> set ys"
  by (induction ys) (auto split: option.splits)

lemma last_index_Some:
  "last_index x ys = Some k \<Longrightarrow> k < length ys \<and> ys ! k = x \<and> (\<forall>m. k < m \<and> m < length ys \<longrightarrow> ys ! m \<noteq> x)"
proof (induction ys arbitrary: k)
  case Nil
  then show ?case by simp
next
  case (Cons y ys)
  show ?case
  proof (cases "last_index x ys")
    case None
    then have "x \<notin> set ys" by (simp add: last_index_None)
    moreover from None Cons.prems have "k = 0" "x = y" by (auto split: if_splits)
    ultimately show ?thesis by (auto simp: nth_Cons split: nat.splits)
  next
    case (Some j)
    with Cons.prems have k: "k = Suc j" by simp
    from Cons.IH[OF Some] show ?thesis unfolding k
      by (auto simp: nth_Cons split: nat.splits)
  qed
qed

lemma create_databases_Cons:
  assumes "create_databases f (c # dbs) n l e = (tr, Inr (l', e'))"
  shows "\<exists>d e1 tr1.
    create_databases f dbs (Suc n)
       (l\<lparr>databases := AList.update (DbName c)
           \<lparr>ptr = n, dbi = d, updateWorkerChan = LmdbEnv.updateWorkerChan l,
            marshal = LmdbEnv.marshal l, unmarshal = LmdbEnv.unmarshal l\<rparr> (databases l)\<rparr>) e1
     = (tr1, Inr (l', e'))
    \<and> writers e1 = writers e \<and> synced e1 = synced e \<and> closed e1 = closed e
    \<and> tr = Call (CreateDBI (DbName c)) # tr1"
proof -
  let ?op = "\<lambda>txn. case txn_CreateDBI (\<lambda>name. f (CreateDBI name)) txn (DbName c) of
                         (Inl err, txn') \<Rightarrow> (Some err, txn')
                       | (Inr d, txn') \<Rightarrow> (None, txn')"
  obtain r e1 where u: "Update e ?op = (r, e1)"
    by (cases "Update e ?op") 
  have flags: "writers e1 = writers e \<and> synced e1 = synced e \<and> closed e1 = closed e"
    using u by (auto simp add: Update_def UpdateLocked_eq split: prod.splits option.splits)
  from assms u have r: "r = None"
    by (cases r) (simp_all add: Let_def)
  from assms u r obtain tr1 where
    "create_databases f dbs (Suc n)
       (l\<lparr>databases := AList.update (DbName c)
           \<lparr>ptr = n,
            dbi = (case fst (txn_CreateDBI (\<lambda>name. f (CreateDBI name)) (committed e) (DbName c)) of
                     Inl err \<Rightarrow> 0 | Inr d \<Rightarrow> d),
            updateWorkerChan = LmdbEnv.updateWorkerChan l,
            marshal = LmdbEnv.marshal l, unmarshal = LmdbEnv.unmarshal l\<rparr> (databases l)\<rparr>) e1
     = (tr1, Inr (l', e'))" and "tr = Call (CreateDBI (DbName c)) # tr1"
    by (auto simp add: Let_def split: prod.splits)
  with flags show ?thesis by blast
qed

lemma create_databases_lookup:
  "create_databases f dbs n l e = (tr, Inr (l', e')) \<Longrightarrow>
   map_option ptr (map_of (databases l') name) =
     (case last_index name (map DbName dbs) of
        None \<Rightarrow> map_option ptr (map_of (databases l) name)
      | Some k \<Rightarrow> Some (n + k))"
proof (induction dbs arbitrary: n l e tr)
  case Nil
  then show ?case by simp
next
  case (Cons c dbs)
  from Cons.prems obtain d e1 tr1 where
    rec: "create_databases f dbs (Suc n)
       (l\<lparr>databases := AList.update (DbName c)
           \<lparr>ptr = n, dbi = d, updateWorkerChan = LmdbEnv.updateWorkerChan l,
            marshal = LmdbEnv.marshal l, unmarshal = LmdbEnv.unmarshal l\<rparr> (databases l)\<rparr>) e1
     = (tr1, Inr (l', e'))"
    using create_databases_Cons[OF Cons.prems] by blast
  show ?case
    using Cons.IH[OF rec]
    by (simp add: update_conv split: option.splits)
qed

lemma create_databases_keys:
  "create_databases f dbs n l e = (tr, Inr (l', e')) \<Longrightarrow>
   set (map fst (databases l')) = set (map fst (databases l)) \<union> set (map DbName dbs)
   \<and> (distinct (map fst (databases l)) \<longrightarrow> distinct (map fst (databases l')))"
proof (induction dbs arbitrary: n l e tr)
  case Nil
  then show ?case by simp
next
  case (Cons c dbs)
  from create_databases_Cons[OF Cons.prems] obtain d e1 tr1 where
    rec: "create_databases f dbs (Suc n)
       (l\<lparr>databases := AList.update (DbName c)
           \<lparr>ptr = n, dbi = d, updateWorkerChan = LmdbEnv.updateWorkerChan l,
            marshal = LmdbEnv.marshal l, unmarshal = LmdbEnv.unmarshal l\<rparr> (databases l)\<rparr>) e1
     = (tr1, Inr (l', e'))"
    by blast
  have "set (map fst (AList.update k v al)) = insert k (set (map fst al))" for k :: string and v :: "'a Db" and al
    by (auto simp add: update_keys)
  with Cons.IH[OF rec] show ?case
    by (simp add: distinct_update)
qed

lemma create_databases_codec:
  "create_databases f dbs n l e = (tr, Inr (l', e')) \<Longrightarrow>
   map_of (databases l') name = Some h \<Longrightarrow>
   map_of (databases l) name = Some h \<or>
   (Db.marshal h = LmdbEnv.marshal l \<and> Db.unmarshal h = LmdbEnv.unmarshal l
     \<and> Db.updateWorkerChan h = LmdbEnv.updateWorkerChan l)"
proof (induction dbs arbitrary: n l e tr)
  case Nil
  then show ?case by simp
next
  case (Cons c dbs)
  from create_databases_Cons[OF Cons.prems(1)] obtain d e1 tr1 where
    rec: "create_databases f dbs (Suc n)
       (l\<lparr>databases := AList.update (DbName c)
           \<lparr>ptr = n, dbi = d, updateWorkerChan = LmdbEnv.updateWorkerChan l,
            marshal = LmdbEnv.marshal l, unmarshal = LmdbEnv.unmarshal l\<rparr> (databases l)\<rparr>) e1
     = (tr1, Inr (l', e'))"
    by blast
  from Cons.IH[OF rec Cons.prems(2)] show ?case
    by (auto simp add: update_conv split: if_splits)
qed

lemma create_databases_handler:
  "create_databases f dbs n l e = (tr, Inr (l', e')) \<Longrightarrow>
   LmdbEnv.marshal l' = LmdbEnv.marshal l \<and> LmdbEnv.unmarshal l' = LmdbEnv.unmarshal l
   \<and> LmdbEnv.updateWorkerChan l' = LmdbEnv.updateWorkerChan l \<and> quitChan l' = quitChan l"
proof (induction dbs arbitrary: n l e tr)
  case Nil
  then show ?case by simp
next
  case (Cons c dbs)
  from create_databases_Cons[OF Cons.prems] obtain d e1 tr1 where
    rec: "create_databases f dbs (Suc n)
       (l\<lparr>databases := AList.update (DbName c)
           \<lparr>ptr = n, dbi = d, updateWorkerChan = LmdbEnv.updateWorkerChan l,
            marshal = LmdbEnv.marshal l, unmarshal = LmdbEnv.unmarshal l\<rparr> (databases l)\<rparr>) e1
     = (tr1, Inr (l', e'))"
    by blast
  from Cons.IH[OF rec] show ?case by simp
qed

lemma create_databases_env:
  "create_databases f dbs n l e = (tr, Inr (l', e')) \<Longrightarrow>
   writers e' = writers e \<and> synced e' = synced e \<and> closed e' = closed e"
proof (induction dbs arbitrary: n l e tr)
  case Nil
  then show ?case by simp
next
  case (Cons c dbs)
  from create_databases_Cons[OF Cons.prems] obtain d e1 tr1 where
    rec: "create_databases f dbs (Suc n)
       (l\<lparr>databases := AList.update (DbName c)
           \<lparr>ptr = n, dbi = d, updateWorkerChan = LmdbEnv.updateWorkerChan l,
            marshal = LmdbEnv.marshal l, unmarshal = LmdbEnv.unmarshal l\<rparr> (databases l)\<rparr>) e1
     = (tr1, Inr (l', e'))"
    and "writers e1 = writers e \<and> synced e1 = synced e \<and> closed e1 = closed e"
    by blast
  with Cons.IH[OF rec] show ?case by simp
qed

lemma create_databases_unfold:
  assumes "Update e (\<lambda>txn. case txn_CreateDBI (\<lambda>name. f (CreateDBI name)) txn (DbName c) of
                         (Inl err, txn') \<Rightarrow> (Some err, txn')
                       | (Inr d, txn') \<Rightarrow> (None, txn')) = (None, e1)"
  shows "create_databases f (c # dbs) n l e =
     (case create_databases f dbs (Suc n)
        (l\<lparr>databases := AList.update (DbName c)
           \<lparr>ptr = n,
            dbi = (case fst (txn_CreateDBI (\<lambda>name. f (CreateDBI name)) (committed e) (DbName c)) of
                     Inl err \<Rightarrow> 0 | Inr d \<Rightarrow> d),
            updateWorkerChan = LmdbEnv.updateWorkerChan l,
            marshal = LmdbEnv.marshal l, unmarshal = LmdbEnv.unmarshal l\<rparr> (databases l)\<rparr>) e1
      of (tr, r) \<Rightarrow> (Call (CreateDBI (DbName c)) # tr, r))"
  using assms by (simp add: Let_def)

lemma Update_create_succeeds:
  assumes "f (CreateDBI name) = None"
  shows "fst (Update e (\<lambda>txn. case txn_CreateDBI (\<lambda>name. f (CreateDBI name)) txn name of
                         (Inl err, txn') \<Rightarrow> (Some err, txn')
                       | (Inr d, txn') \<Rightarrow> (None, txn'))) = None"
  using assms
  by (simp add: Update_def UpdateLocked_eq txn_CreateDBI_def Let_def split: option.splits)

lemma create_databases_succeeds:
  "\<forall>name. f (CreateDBI name) = None \<Longrightarrow>
   \<exists>tr l' e'. create_databases f dbs n l e = (tr, Inr (l', e'))"
proof (induction dbs arbitrary: n l e)
  case Nil
  then show ?case by simp
next
  case (Cons c dbs)
  let ?op = "\<lambda>txn. case txn_CreateDBI (\<lambda>name. f (CreateDBI name)) txn (DbName c) of
                         (Inl err, txn') \<Rightarrow> (Some err, txn')
                       | (Inr d, txn') \<Rightarrow> (None, txn')"
  from Cons.prems have "f (CreateDBI (DbName c)) = None" by blast
  then have "fst (Update e ?op) = None"
    by (rule Update_create_succeeds)
  then obtain e1 where e1: "Update e ?op = (None, e1)"
    by (cases "Update e ?op") simp
  let ?l1 = "l\<lparr>databases := AList.update (DbName c)
           \<lparr>ptr = n,
            dbi = (case fst (txn_CreateDBI (\<lambda>name. f (CreateDBI name)) (committed e) (DbName c)) of
                     Inl err \<Rightarrow> 0 | Inr d \<Rightarrow> d),
            updateWorkerChan = LmdbEnv.updateWorkerChan l,
            marshal = LmdbEnv.marshal l, unmarshal = LmdbEnv.unmarshal l\<rparr> (databases l)\<rparr>"
  from Cons.IH[OF Cons.prems, of "Suc n" ?l1 e1] obtain tr1 l' e' where
    rec: "create_databases f dbs (Suc n) ?l1 e1 = (tr1, Inr (l', e'))"
    by blast
  show ?case
    unfolding create_databases_unfold[OF e1] rec by simp
qed

lemma create_databases_trace:
  "create_databases f dbs n l e = (tr, r) \<Longrightarrow> GoWorker \<notin> set tr"
proof (induction dbs arbitrary: n l e tr r)
  case Nil
  then show ?case by simp
next
  case (Cons c dbs)
  let ?op = "\<lambda>txn. case txn_CreateDBI (\<lambda>name. f (CreateDBI name)) txn (DbName c) of
                         (Inl err, txn') \<Rightarrow> (Some err, txn')
                       | (Inr d, txn') \<Rightarrow> (None, txn')"
  obtain r0 e1 where u: "Update e ?op = (r0, e1)"
    by (cases "Update e ?op")
  show ?case
  proof (cases r0)
    case None
    with Cons.prems u show ?thesis
      by (auto simp add: Let_def split: prod.splits dest: Cons.IH)
  next
    case (Some err)
    with Cons.prems u show ?thesis
      by (auto simp add: Let_def)
  qed
qed


subsection \<open>What \<^verbatim>\<open>NewLmdb\<close> builds\<close>

lemma engine_calls_willing:
  "\<forall>c. f c = None \<Longrightarrow> engine_calls f cs = (map Call cs, None)"
  by (induction cs) simp_all

lemma engine_calls_trace: "engine_calls f cs = (tr, r) \<Longrightarrow> GoWorker \<notin> set tr"
  by (induction cs arbitrary: tr r) (auto split: option.splits prod.splits)

text \<open>What a successful \<^verbatim>\<open>NewLmdb\<close> has done: the five engine calls, then the loop.\<close>

lemma NewLmdb_Inr:
  assumes "NewLmdb eng config = (tr, Inr (l, e))"
  shows "\<exists>tr'. create_databases (refuses eng) (Databases config) 0
           \<lparr>databases = [], updateWorkerChan = Some 0, quitChan = None,
            marshal = Marshal config, unmarshal = Unmarshal config\<rparr> (found eng)
         = (tr', Inr (l, e))"
  using assms
  by (auto simp add: NewLmdb_def Let_def split: if_splits prod.splits option.splits sum.splits)

lemma NewLmdb_succeeds:
  assumes "\<forall>c. refuses eng c = None" and "Databases config \<noteq> []"
  shows "\<exists>tr l e. NewLmdb eng config = (tr, Inr (l, e))"
proof -
  from assms(1) have "\<forall>name. refuses eng (CreateDBI name) = None" by simp
  from create_databases_succeeds[OF this] obtain tr' l e where
    "create_databases (refuses eng) (Databases config) 0
           \<lparr>databases = [], updateWorkerChan = Some 0, quitChan = None,
            marshal = Marshal config, unmarshal = Unmarshal config\<rparr> (found eng)
         = (tr', Inr (l, e))"
    by blast
  moreover from assms(2) have "\<not> length (Databases config) < 1"
    by (cases "Databases config") simp_all
  moreover from assms(1) have "\<forall>c. refuses eng c = None" .
  ultimately show ?thesis
    by (simp add: NewLmdb_def Let_def engine_calls_willing del: engine_calls.simps)
qed

lemma NewLmdb_quitChan:
  assumes "NewLmdb eng config = (tr, Inr (l, e))"
  shows "quitChan l = None \<and> LmdbEnv.updateWorkerChan l = Some 0
       \<and> LmdbEnv.marshal l = Marshal config \<and> LmdbEnv.unmarshal l = Unmarshal config"
  using NewLmdb_Inr[OF assms] create_databases_handler by fastforce

lemma NewLmdb_env:
  assumes "NewLmdb eng config = (tr, Inr (l, e))"
  shows "writers e = writers (found eng) \<and> synced e = synced (found eng)
       \<and> closed e = closed (found eng)"
  using NewLmdb_Inr[OF assms] create_databases_env by blast

text \<open>A call of \<^verbatim>\<open>NewLmdb\<close> that returns an error has not started the worker.\<close>

lemma NewLmdb_error_no_worker:
  assumes "NewLmdb eng config = (tr, Inl err)"
  shows "GoWorker \<notin> set tr"
proof (cases "length (Databases config) < 1")
  case True
  with assms show ?thesis by (simp add: NewLmdb_def)
next
  case False
  let ?cs = "[NewEnv, SetMapSize (MapSize config), SetMaxDBs (length (Databases config)),
              SetMaxReaders (MaxReaders config),
              Open (OpenPath config) (OpenFlag config) (OpenFSMode config)]"
  let ?l0 = "\<lparr>databases = [], updateWorkerChan = Some 0, quitChan = None,
              marshal = Marshal config, unmarshal = Unmarshal config\<rparr>"
  obtain tr1 r1 where ec: "engine_calls (refuses eng) ?cs = (tr1, r1)"
    by (cases "engine_calls (refuses eng) ?cs")
  obtain tr2 r2 where cd: "create_databases (refuses eng) (Databases config) 0 ?l0 (found eng) = (tr2, r2)"
    by (cases "create_databases (refuses eng) (Databases config) 0 ?l0 (found eng)")
  from engine_calls_trace[OF ec] have 1: "GoWorker \<notin> set tr1" .
  from create_databases_trace[OF cd] have 2: "GoWorker \<notin> set tr2" .
  from assms False ec cd 1 2 show ?thesis
    by (auto simp add: NewLmdb_def Let_def simp del: engine_calls.simps
        split: option.splits sum.splits)
qed

text \<open>Every handle of the environment has the codec and the channel of the environment.\<close>

lemma NewLmdb_handles:
  assumes "NewLmdb eng config = (tr, Inr (l, e))" and "GetDatabase l name = Some s"
  shows "Db.marshal s = Marshal config \<and> Db.unmarshal s = Unmarshal config
       \<and> Db.updateWorkerChan s = Some 0"
proof -
  from NewLmdb_Inr[OF assms(1)] obtain tr' where
    "create_databases (refuses eng) (Databases config) 0
           \<lparr>databases = [], updateWorkerChan = Some 0, quitChan = None,
            marshal = Marshal config, unmarshal = Unmarshal config\<rparr> (found eng)
         = (tr', Inr (l, e))"
    by blast
  from create_databases_codec[OF this, of name s] assms(2) show ?thesis
    by (simp add: GetDatabase_def)
qed

text \<open>The map has one entry for each name of the configuration.\<close>

lemma NewLmdb_databases:
  assumes "NewLmdb eng config = (tr, Inr (l, e))"
  shows "distinct (map fst (databases l))
       \<and> set (map fst (databases l)) = set (map DbName (Databases config))
       \<and> length (databases l) = card (set (map DbName (Databases config)))"
proof -
  from NewLmdb_Inr[OF assms(1)] obtain tr' where
    "create_databases (refuses eng) (Databases config) 0
           \<lparr>databases = [], updateWorkerChan = Some 0, quitChan = None,
            marshal = Marshal config, unmarshal = Unmarshal config\<rparr> (found eng)
         = (tr', Inr (l, e))"
    by blast
  from create_databases_keys[OF this] have
    d: "distinct (map fst (databases l))"
    and k: "set (map fst (databases l)) = set (map DbName (Databases config))"
    by simp_all
  from distinct_card[OF d] k have "length (databases l) = card (set (map DbName (Databases config)))"
    by simp
  with d k show ?thesis by blast
qed

lemma NewLmdb_lookup:
  assumes "NewLmdb eng config = (tr, Inr (l, e))"
  shows "map_option ptr (GetDatabase l name) = last_index name (map DbName (Databases config))"
proof -
  from NewLmdb_Inr[OF assms(1)] obtain tr' where
    "create_databases (refuses eng) (Databases config) 0
           \<lparr>databases = [], updateWorkerChan = Some 0, quitChan = None,
            marshal = Marshal config, unmarshal = Unmarshal config\<rparr> (found eng)
         = (tr', Inr (l, e))"
    by blast
  from create_databases_lookup[OF this, of name] show ?thesis
    by (simp add: GetDatabase_def split: option.splits)
qed

subsection \<open>Looking up handles\<close>

text \<open>
  Claim C7. The databases an environment is configured with are the entries of its map from
  names to handles, whose number \<^verbatim>\<open>GetSingleDatabase\<close> tests. With no entry, or with
  two or more, it returns no handle and an error; with one entry it returns the handle of
  that entry, the one \<^verbatim>\<open>GetDatabase\<close> finds under its name, and the nil error. So the
  error is nil exactly when there is one entry. (\<open>NewLmdb_databases\<close> above: after
  \<^verbatim>\<open>NewLmdb\<close> the map has one entry for each name of the configuration.)
\<close>

theorem GetSingleDatabase_iff_one:
  "(length (databases l) \<noteq> 1 \<longrightarrow>
      fst (GetSingleDatabase l) = None \<and> snd (GetSingleDatabase l) \<noteq> None)
   \<and> (length (databases l) = 1 \<longrightarrow>
      (\<exists>name h. databases l = [(name, h)] \<and> GetDatabase l name = Some h
         \<and> GetSingleDatabase l = (Some h, None)))"
  by (cases "databases l") (auto simp add: GetSingleDatabase_def GetDatabase_def)

theorem GetSingleDatabase_iff_one_witness:
  "GetSingleDatabase \<lparr>databases = [], updateWorkerChan = Some 0, quitChan = None,
      marshal = None, unmarshal = None\<rparr> =
     (None, Some (ErrMsg ''number of databases configured LmdbEnv is not 1''))
   \<and> GetSingleDatabase \<lparr>databases = [(''default'', example_Db)], updateWorkerChan = Some 0,
      quitChan = None, marshal = None, unmarshal = None\<rparr> = (Some example_Db, None)
   \<and> GetSingleDatabase \<lparr>databases = [(''a'', example_Db), (''b'', example_Db\<lparr>ptr := 1\<rparr>)],
      updateWorkerChan = Some 0, quitChan = None, marshal = None, unmarshal = None\<rparr> =
     (None, Some (ErrMsg ''number of databases configured LmdbEnv is not 1''))"
  using
    GetSingleDatabase_iff_one [of "\<lparr>databases = [], updateWorkerChan = Some 0, quitChan = None,
      marshal = None, unmarshal = None\<rparr>"]
    GetSingleDatabase_iff_one [of "\<lparr>databases = [(''default'', example_Db)],
      updateWorkerChan = Some 0, quitChan = None, marshal = None, unmarshal = None\<rparr>"]
    GetSingleDatabase_iff_one [of "\<lparr>databases = [(''a'', example_Db), (''b'', example_Db\<lparr>ptr := 1\<rparr>)],
      updateWorkerChan = Some 0, quitChan = None, marshal = None, unmarshal = None\<rparr>"]
  by (simp add: GetSingleDatabase_def)

subsection \<open>Initialisation\<close>

text \<open>
  Claim C8. When the list \<^verbatim>\<open>Databases\<close> of the configuration is empty,
  \<^verbatim>\<open>NewLmdb\<close> returns the error \<open>no databases is setup\<close> for every engine, and the list
  of what it has done is empty: no call on the engine has been made, nothing has been opened,
  and the worker has not been started.
\<close>

theorem NewLmdb_no_databases:
  assumes "Databases config = []"
  shows "NewLmdb eng config = ([], Inl (ErrMsg ''no databases is setup''))"
  using assms by (simp add: NewLmdb_def)

theorem NewLmdb_no_databases_witness:
  "NewLmdb willing_engine (example_config\<lparr>Databases := []\<rparr>) =
     ([], Inl (ErrMsg ''no databases is setup''))"
proof -
  have "Databases (example_config\<lparr>Databases := []\<rparr>) = []" by simp
  from NewLmdb_no_databases [OF this] show ?thesis .
qed

text \<open>
  Claim C9. Let the entries at \<open>i < j\<close> of \<^verbatim>\<open>Databases\<close> have the same name, and let
  the engine refuse no call. Then \<^verbatim>\<open>NewLmdb\<close> succeeds; the map has one entry for the
  name; \<^verbatim>\<open>GetDatabase\<close> of the name returns the handle made for the last entry with
  that name (the handle of the entry at index \<open>k\<close> is the one with \<open>ptr = k\<close>); and no name
  leads to the handle made for the entry at \<open>i\<close>.
\<close>

theorem NewLmdb_duplicate_names:
  assumes "\<forall>c. refuses eng c = None"
    and "i < j" and "j < length (Databases config)"
    and "DbName (Databases config ! i) = DbName (Databases config ! j)"
  shows "\<exists>tr l e h.
           NewLmdb eng config = (tr, Inr (l, e))
         \<and> distinct (map fst (databases l))
         \<and> GetDatabase l (DbName (Databases config ! j)) = Some h
         \<and> j \<le> ptr h \<and> ptr h < length (Databases config)
         \<and> DbName (Databases config ! ptr h) = DbName (Databases config ! j)
         \<and> (\<forall>m. ptr h < m \<and> m < length (Databases config) \<longrightarrow>
                DbName (Databases config ! m) \<noteq> DbName (Databases config ! j))
         \<and> (\<forall>name h'. GetDatabase l name = Some h' \<longrightarrow> ptr h' \<noteq> i)"
proof -
  let ?names = "map DbName (Databases config)"
  let ?a = "DbName (Databases config ! j)"
  from assms(3) have ne: "Databases config \<noteq> []" by auto
  from NewLmdb_succeeds[OF assms(1) ne] obtain tr l e where
    n: "NewLmdb eng config = (tr, Inr (l, e))" by blast
  have look: "map_option ptr (GetDatabase l name) = last_index name ?names" for name
    by (rule NewLmdb_lookup[OF n])
  from assms(3) have "?a \<in> set ?names" by (metis length_map nth_map nth_mem)
  then obtain k where k: "last_index ?a ?names = Some k"
    by (cases "last_index ?a ?names") (simp_all add: last_index_None)
  from last_index_Some[OF k] have kl: "k < length (Databases config)"
    and ka: "DbName (Databases config ! k) = ?a"
    and kmax: "\<forall>m. k < m \<and> m < length (Databases config) \<longrightarrow> DbName (Databases config ! m) \<noteq> ?a"
    by auto
  have jk: "j \<le> k"
  proof (rule ccontr)
    assume "\<not> j \<le> k"
    then have "k < j" by simp
    with kmax assms(3) show False by blast
  qed
  from look[of ?a] k obtain h where h: "GetDatabase l ?a = Some h" and ph: "ptr h = k"
    by (cases "GetDatabase l ?a") simp_all
  have unreachable: "ptr h' \<noteq> i" if g: "GetDatabase l name = Some h'" for name h'
  proof
    assume pi: "ptr h' = i"
    from look[of name] g pi have "last_index name ?names = Some i" by simp
    from last_index_Some[OF this] assms(2,3) have
      "DbName (Databases config ! i) = name" "DbName (Databases config ! j) \<noteq> name"
      by auto
    with assms(4) show False by simp
  qed
  from NewLmdb_databases[OF n] have d: "distinct (map fst (databases l))" by simp
  from n d h ph jk kl ka kmax unreachable show ?thesis by blast
qed

theorem NewLmdb_duplicate_names_witness:
  "\<exists>tr l e h. NewLmdb willing_engine duplicate_config = (tr, Inr (l, e))
     \<and> GetDatabase l ''a'' = Some h \<and> ptr h = 2
     \<and> (\<forall>name h'. GetDatabase l name = Some h' \<longrightarrow> ptr h' \<noteq> 0)"
proof -
  have w: "\<forall>c. refuses willing_engine c = None" by (simp add: willing_engine_def)
  have dbs: "Databases duplicate_config =
     [\<lparr>DbName = ''a'', DbConfig.Marshal = None, DbConfig.Unmarshal = None\<rparr>,
      \<lparr>DbName = ''b'', DbConfig.Marshal = None, DbConfig.Unmarshal = None\<rparr>,
      \<lparr>DbName = ''a'', DbConfig.Marshal = None, DbConfig.Unmarshal = None\<rparr>]"
    by (simp add: duplicate_config_def)
  have lt: "(0::nat) < 2" by simp
  have len: "2 < length (Databases duplicate_config)" by (simp add: dbs)
  have same: "DbName (Databases duplicate_config ! 0) = DbName (Databases duplicate_config ! 2)"
    by (simp add: dbs)
  from NewLmdb_duplicate_names [OF w lt len same] obtain tr l e h where
    "NewLmdb willing_engine duplicate_config = (tr, Inr (l, e))"
    "GetDatabase l (DbName (Databases duplicate_config ! 2)) = Some h"
    "2 \<le> ptr h" "ptr h < length (Databases duplicate_config)"
    "\<forall>name h'. GetDatabase l name = Some h' \<longrightarrow> ptr h' \<noteq> 0"
    by blast
  then show ?thesis
    by (auto simp add: dbs)
qed

subsection \<open>The worker: one request at a time, in the order received\<close>

lemma committed_txn_finish:
  "committed (snd (txn_finish op x)) =
     (case op (committed x) of (Some err, t) \<Rightarrow> committed x | (None, t) \<Rightarrow> t)"
  by (simp add: txn_finish_def split: prod.splits option.splits)

lemma writers_txn_finish: "writers (snd (txn_finish op x)) = writers x - 1"
  by (simp add: txn_finish_def split: prod.splits option.splits)

lemma flags_txn_finish:
  "synced (snd (txn_finish op x)) = synced x \<and> closed (snd (txn_finish op x)) = closed x"
  by (simp add: txn_finish_def split: prod.splits option.splits)

lemma committed_UpdateLocked:
  "committed (snd (UpdateLocked y op)) =
     (case op (committed y) of (Some err, t) \<Rightarrow> committed y | (None, t) \<Rightarrow> t)"
  by (simp add: UpdateLocked_eq split: prod.splits option.splits)

lemma run_requests_snoc:
  "run_requests e (ops @ [op]) = snd (UpdateLocked (run_requests e ops) op)"
  by (simp add: run_requests_def)

lemma fst_txn_finish: "fst (txn_finish op x) = fst (op (committed x))"
  by (simp add: txn_finish_def split: prod.splits option.splits)

lemma fst_UpdateLocked: "fst (UpdateLocked y op) = fst (op (committed y))"
  by (simp add: UpdateLocked_eq split: prod.splits option.splits)

lemma open_txns_le: "open_txns w \<le> 1"
  by (cases w) simp_all

lemma run_requests_Nil: "run_requests e [] = e"
  by (simp add: run_requests_def)

text \<open>The invariant holds at the start and every step keeps it.\<close>

lemma dispatcher_inv_boot: "writers e = 0 \<Longrightarrow> dispatcher_inv e (boot l e)"
  by (simp add: dispatcher_inv_def boot_def run_requests_Nil)

lemma dispatcher_inv_step:
  assumes "step s s'" and "dispatcher_inv e s"
  shows "dispatcher_inv e s'"
  using assms
proof (induction rule: step.induct)
  case (call_UpdateTxn s i d op)
  then show ?case by (auto simp add: dispatcher_inv_def)
next
  case (call_Close s i)
  then show ?case by (auto simp add: dispatcher_inv_def)
next
  case (receive_op s i c op)
  then show ?case by (auto simp add: dispatcher_inv_def)
next
  case (begin_txn s i op)
  then show ?case by (auto simp add: dispatcher_inv_def txn_begin_def)
next
  case (finish_txn s i op)
  let ?s' = "s\<lparr>worker := Replying i (fst (txn_finish op (env s))),
               env := snd (txn_finish op (env s)),
               executed := executed s @ [(i, op)]\<rparr>"
  from finish_txn have w: "writers (env s) = 1"
    and rc: "received s = executed s @ [(i, op)]"
    and cm: "committed (env s) = committed (run_requests e (map snd (executed s)))"
    and aw: "\<forall>j op'. callers s j = Awaiting op' \<longrightarrow> j = i"
    and ci: "callers s i = Awaiting op"
    and rt: "\<forall>j op' r. callers s j = Returned op' r \<longrightarrow>
         (\<exists>k<length (executed s). executed s ! k = (j, op')
            \<and> r = fst (UpdateLocked (run_requests e (map snd (take k (executed s)))) op'))"
    by (simp_all add: dispatcher_inv_def)
  have 1: "writers (env ?s') = open_txns (worker ?s')"
    using w by (simp add: writers_txn_finish)
  have 2: "received ?s' = executed ?s' @ in_flight (worker ?s')"
    using rc by simp
  have 3: "committed (env ?s') = committed (run_requests e (map snd (executed ?s')))"
    using cm
    by (simp add: committed_txn_finish run_requests_snoc committed_UpdateLocked
        split: prod.splits option.splits)
  have 4: "\<forall>j op'. callers ?s' j = Awaiting op' \<longrightarrow> holder (worker ?s') = Some j"
    using aw by simp
  have 5: "\<forall>j op'. worker ?s' = Received j op' \<or> worker ?s' = Running j op' \<longrightarrow>
             callers ?s' j = Awaiting op'"
    by simp
  have 6: "\<forall>j r. worker ?s' = Replying j r \<longrightarrow>
         (\<exists>op'. callers ?s' j = Awaiting op' \<and> executed ?s' \<noteq> []
            \<and> last (executed ?s') = (j, op')
            \<and> r = fst (UpdateLocked
                        (run_requests e (map snd (butlast (executed ?s')))) op'))"
    using ci cm by (simp add: fst_txn_finish fst_UpdateLocked)
  have 7: "\<forall>j op' r. callers ?s' j = Returned op' r \<longrightarrow>
         (\<exists>k<length (executed ?s'). executed ?s' ! k = (j, op')
            \<and> r = fst (UpdateLocked
                        (run_requests e (map snd (take k (executed ?s')))) op'))"
  proof (intro allI impI)
    fix j op' r
    assume "callers ?s' j = Returned op' r"
    then have "callers s j = Returned op' r" by simp
    with rt obtain k where k: "k < length (executed s)" "executed s ! k = (j, op')"
      "r = fst (UpdateLocked (run_requests e (map snd (take k (executed s)))) op')"
      by blast
    then have "k < length (executed ?s') \<and> executed ?s' ! k = (j, op')
        \<and> r = fst (UpdateLocked (run_requests e (map snd (take k (executed ?s')))) op')"
      by (simp add: nth_append)
    then show "\<exists>k<length (executed ?s'). executed ?s' ! k = (j, op')
        \<and> r = fst (UpdateLocked (run_requests e (map snd (take k (executed ?s')))) op')"
      by blast
  qed
  from 1 2 3 4 5 6 7 show ?case
    unfolding dispatcher_inv_def by blast
next
  case (reply s i r op)
  let ?s' = "s\<lparr>worker := Select, callers := (callers s)(i := Returned op r)\<rparr>"
  from reply have w: "writers (env s) = 0"
    and rc: "received s = executed s"
    and cm: "committed (env s) = committed (run_requests e (map snd (executed s)))"
    and aw: "\<forall>j op'. callers s j = Awaiting op' \<longrightarrow> j = i"
    and rp: "\<exists>op'. callers s i = Awaiting op' \<and> executed s \<noteq> [] \<and> last (executed s) = (i, op')
            \<and> r = fst (UpdateLocked (run_requests e (map snd (butlast (executed s)))) op')"
    and rt: "\<forall>j op' r. callers s j = Returned op' r \<longrightarrow>
         (\<exists>k<length (executed s). executed s ! k = (j, op')
            \<and> r = fst (UpdateLocked (run_requests e (map snd (take k (executed s)))) op'))"
    by (simp_all add: dispatcher_inv_def)
  from rp reply.hyps(2) have ne: "executed s \<noteq> []" and la: "last (executed s) = (i, op)"
    and rr: "r = fst (UpdateLocked (run_requests e (map snd (butlast (executed s)))) op)"
    by auto
  have 4: "\<forall>j op'. callers ?s' j = Awaiting op' \<longrightarrow> holder (worker ?s') = Some j"
    using aw by auto
  have new: "\<exists>k<length (executed s). executed s ! k = (i, op)
        \<and> r = fst (UpdateLocked (run_requests e (map snd (take k (executed s)))) op)"
  proof (intro exI conjI)
    show "length (executed s) - 1 < length (executed s)" using ne by simp
    show "executed s ! (length (executed s) - 1) = (i, op)"
      using ne la by (simp add: last_conv_nth)
    show "r = fst (UpdateLocked (run_requests e
             (map snd (take (length (executed s) - 1) (executed s)))) op)"
      using rr by (simp add: butlast_conv_take)
  qed
  have 7: "\<forall>j op' r'. callers ?s' j = Returned op' r' \<longrightarrow>
         (\<exists>k<length (executed ?s'). executed ?s' ! k = (j, op')
            \<and> r' = fst (UpdateLocked
                        (run_requests e (map snd (take k (executed ?s')))) op'))"
    using rt new by (auto split: if_splits)
  from w rc cm 4 7 show ?case
    unfolding dispatcher_inv_def by simp
next
  case (receive_quit s i q)
  then show ?case by (auto simp add: dispatcher_inv_def)
next
  case (quit_sync s)
  then show ?case by (auto simp add: dispatcher_inv_def env_Sync_def)
next
  case (quit_close s)
  then show ?case by (auto simp add: dispatcher_inv_def env_Close_def)
qed


lemma dispatcher_inv_reachable:
  assumes "rtranclp step (boot l e) s" and "writers e = 0"
  shows "dispatcher_inv e s"
  using assms
proof (induction rule: rtranclp_induct)
  case base
  then show ?case by (rule dispatcher_inv_boot)
next
  case (step y z)
  then show ?case using dispatcher_inv_step by blast
qed

lemma step_to: "step s t \<Longrightarrow> t = t' \<Longrightarrow> step s t'"
  by simp

text \<open>The four steps of the worker for one request.\<close>

lemma serve:
  assumes "worker s = Select" and "callers s i = Sending (Some c) op"
    and "LmdbEnv.updateWorkerChan (handler s) = Some c"
  shows "rtranclp step s (served s i op)"
proof -
  let ?s1 = "s\<lparr>worker := Received i op, callers := (callers s)(i := Awaiting op),
               received := received s @ [(i, op)]\<rparr>"
  let ?s2 = "?s1\<lparr>worker := Running i op, env := txn_begin (env ?s1)\<rparr>"
  let ?s3 = "?s2\<lparr>worker := Replying i (fst (txn_finish op (env ?s2))),
               env := snd (txn_finish op (env ?s2)),
               executed := executed ?s2 @ [(i, op)]\<rparr>"
  let ?s4 = "?s3\<lparr>worker := Select,
               callers := (callers ?s3)(i := Returned op (fst (txn_finish op (env ?s2))))\<rparr>"
  have 1: "step s ?s1" by (rule receive_op [OF assms])
  have 2: "step ?s1 ?s2" by (rule begin_txn) simp
  have 3: "step ?s2 ?s3" by (rule finish_txn) simp
  have 4: "step ?s3 ?s4" by (rule reply [where op = op]) simp_all
  have eq: "?s4 = served s i op"
    using assms(1) by (simp add: served_def UpdateLocked_def)
  from 1 2 3 4 have "rtranclp step s ?s4"
    by (meson rtranclp.rtrancl_into_rtrancl rtranclp.rtrancl_refl)
  then show ?thesis by (simp only: eq)
qed

text \<open>
  From every state that satisfies the invariant the worker can come back to its
  \<^verbatim>\<open>select\<close>, having executed what it had received, and a caller that is blocked in
  its send is still blocked there.
\<close>

lemma back_to_select:
  assumes "dispatcher_inv e s" and "callers s i = Sending c op"
  shows "\<exists>s1. rtranclp step s s1 \<and> worker s1 = Select \<and> handler s1 = handler s
           \<and> callers s1 i = Sending c op \<and> executed s1 = received s"
proof (cases "worker s")
  case Select
  with assms show ?thesis by (auto simp add: dispatcher_inv_def)
next
  case (Received j op')
  with assms have cj: "callers s j = Awaiting op'" and rc: "received s = executed s @ [(j, op')]"
    by (simp_all add: dispatcher_inv_def)
  with assms(2) have ji: "j \<noteq> i" by auto
  let ?s1 = "s\<lparr>worker := Running j op', env := txn_begin (env s)\<rparr>"
  let ?s2 = "?s1\<lparr>worker := Replying j (fst (txn_finish op' (env ?s1))),
               env := snd (txn_finish op' (env ?s1)),
               executed := executed ?s1 @ [(j, op')]\<rparr>"
  let ?s3 = "?s2\<lparr>worker := Select,
               callers := (callers ?s2)(j := Returned op' (fst (txn_finish op' (env ?s1))))\<rparr>"
  have 1: "step s ?s1" by (rule begin_txn) (rule Received)
  have 2: "step ?s1 ?s2" by (rule finish_txn) simp
  have 3: "step ?s2 ?s3" by (rule reply [where op = op']) (simp_all add: cj)
  from 1 2 3 have "rtranclp step s ?s3"
    by (meson rtranclp.rtrancl_into_rtrancl rtranclp.rtrancl_refl)
  moreover have "worker ?s3 = Select" "handler ?s3 = handler s"
    "callers ?s3 i = Sending c op" "executed ?s3 = received s"
    using ji assms(2) rc by simp_all
  ultimately show ?thesis by blast
next
  case (Running j op')
  with assms have cj: "callers s j = Awaiting op'" and rc: "received s = executed s @ [(j, op')]"
    by (simp_all add: dispatcher_inv_def)
  with assms(2) have ji: "j \<noteq> i" by auto
  let ?s2 = "s\<lparr>worker := Replying j (fst (txn_finish op' (env s))),
               env := snd (txn_finish op' (env s)),
               executed := executed s @ [(j, op')]\<rparr>"
  let ?s3 = "?s2\<lparr>worker := Select,
               callers := (callers ?s2)(j := Returned op' (fst (txn_finish op' (env s))))\<rparr>"
  have 2: "step s ?s2" by (rule finish_txn) (rule Running)
  have 3: "step ?s2 ?s3" by (rule reply [where op = op']) (simp_all add: cj)
  from 2 3 have "rtranclp step s ?s3"
    by (meson rtranclp.rtrancl_into_rtrancl rtranclp.rtrancl_refl)
  moreover have "worker ?s3 = Select" "handler ?s3 = handler s"
    "callers ?s3 i = Sending c op" "executed ?s3 = received s"
    using ji assms(2) rc by simp_all
  ultimately show ?thesis by blast
next
  case (Replying j r)
  with assms obtain op' where cj: "callers s j = Awaiting op'"
    by (auto simp add: dispatcher_inv_def)
  from Replying assms have rc: "received s = executed s"
    by (simp add: dispatcher_inv_def)
  from cj assms(2) have ji: "j \<noteq> i" by auto
  let ?s3 = "s\<lparr>worker := Select, callers := (callers s)(j := Returned op' r)\<rparr>"
  have "step s ?s3" by (rule reply [OF Replying cj])
  then have "rtranclp step s ?s3" by simp
  moreover have "worker ?s3 = Select" "handler ?s3 = handler s"
    "callers ?s3 i = Sending c op" "executed ?s3 = received s"
    using ji assms(2) rc by simp_all
  ultimately show ?thesis by blast
next
  case Quit_Sync
  with assms have rc: "received s = executed s"
    by (simp add: dispatcher_inv_def)
  let ?s1 = "s\<lparr>worker := Quit_Close, env := env_Sync (env s)\<rparr>"
  let ?s2 = "?s1\<lparr>worker := Select, env := env_Close (env ?s1)\<rparr>"
  have 1: "step s ?s1" by (rule quit_sync) (rule Quit_Sync)
  have 2: "step ?s1 ?s2" by (rule quit_close) simp
  from 1 2 have "rtranclp step s ?s2"
    by (meson rtranclp.rtrancl_into_rtrancl rtranclp.rtrancl_refl)
  moreover have "worker ?s2 = Select" "handler ?s2 = handler s"
    "callers ?s2 i = Sending c op" "executed ?s2 = received s"
    using assms(2) rc by simp_all
  ultimately show ?thesis by blast
next
  case Quit_Close
  with assms have rc: "received s = executed s"
    by (simp add: dispatcher_inv_def)
  let ?s2 = "s\<lparr>worker := Select, env := env_Close (env s)\<rparr>"
  have "step s ?s2" by (rule quit_close) (rule Quit_Close)
  then have "rtranclp step s ?s2" by simp
  moreover have "worker ?s2 = Select" "handler ?s2 = handler s"
    "callers ?s2 i = Sending c op" "executed ?s2 = received s"
    using assms(2) rc by simp_all
  ultimately show ?thesis by blast
qed

lemma request_can_be_served:
  assumes "dispatcher_inv e s" and "callers s i = Sending (Some c) op"
    and "LmdbEnv.updateWorkerChan (handler s) = Some c"
  shows "\<exists>s' r. rtranclp step s s' \<and> callers s' i = Returned op r
           \<and> executed s' = received s @ [(i, op)]"
proof -
  from back_to_select[OF assms(1,2)] obtain s1 where
    r1: "rtranclp step s s1" and w1: "worker s1 = Select" and h1: "handler s1 = handler s"
    and c1: "callers s1 i = Sending (Some c) op" and e1: "executed s1 = received s"
    by blast
  from h1 assms(3) have ch: "LmdbEnv.updateWorkerChan (handler s1) = Some c" by simp
  from serve[OF w1 c1 ch] r1 have "rtranclp step s (served s1 i op)" by simp
  moreover have "callers (served s1 i op) i = Returned op (fst (UpdateLocked (env s1) op))"
    "executed (served s1 i op) = received s @ [(i, op)]"
    using e1 by (simp_all add: served_def)
  ultimately show ?thesis by blast
qed

text \<open>
  What \<^verbatim>\<open>UpdateTxn\<close> returns for one caller is what the worker does for it: from a state
  where the worker waits at its \<^verbatim>\<open>select\<close> on the channel of the handle, the call,
  the hand-over, the transaction and the reply lead to the state where the caller has the
  result and the environment is the one \<^verbatim>\<open>UpdateTxn\<close> gives.
\<close>

lemma UpdateTxn_served:
  assumes "worker s = Select" and "resting (callers s i)"
    and "Db.updateWorkerChan (d::'v Db) = LmdbEnv.updateWorkerChan (handler (s::'v sys))"
    and "UpdateTxn d op (env s) = Some (r, e')"
  shows "\<exists>s'. rtranclp step s s' \<and> callers s' i = Returned op r \<and> env s' = e'
           \<and> worker s' = Select"
proof -
  from assms(4) obtain c where c: "Db.updateWorkerChan d = Some c"
    and u: "UpdateLocked (env s) op = (r, e')"
    by (auto simp add: UpdateTxn_def split: option.splits)
  let ?s1 = "s\<lparr>callers := (callers s)(i := Sending (Db.updateWorkerChan d) op)\<rparr>"
  have 1: "step s ?s1" by (rule call_UpdateTxn) (rule assms(2))
  have "rtranclp step ?s1 (served ?s1 i op)"
    by (rule serve [where c = c]) (use assms(1,3) c in simp_all)
  with 1 have "rtranclp step s (served ?s1 i op)" by simp
  moreover from u have "callers (served ?s1 i op) i = Returned op r"
    "env (served ?s1 i op) = e'" "worker (served ?s1 i op) = Select"
    using assms(1) by (simp_all add: served_def)
  ultimately show ?thesis by blast
qed

text \<open>
  Claim C4. In every state the system reaches from the one in which \<^verbatim>\<open>NewLmdb\<close>
  returns, with no write transaction open at that moment:
  at most one write transaction is open on the environment, and one is open exactly while
  the worker is inside \<^verbatim>\<open>UpdateLocked\<close>;
  the requests received are the requests executed, in the same order, followed by the one
  request the worker holds, if it holds one;
  the committed state is the one that running the executed requests one after the other in
  that order, each in its own write transaction, produces;
  a caller waits for a reply only while the worker has its request;
  when \<^verbatim>\<open>UpdateTxn(op)\<close> has returned \<open>r\<close> to a caller, its request is among the
  executed ones and \<open>r\<close> is the result of the transaction of \<open>op\<close> run after the requests
  executed before it;
  and every request that a caller is sending on the worker's channel can be served: the
  system can go on to a state where the request has been executed right after the requests
  received so far and \<^verbatim>\<open>UpdateTxn\<close> has returned to that caller.
  The requests are those sent through \<^verbatim>\<open>UpdateTxn\<close>, which is what \<^verbatim>\<open>Put\<close>,
  \<^verbatim>\<open>Del\<close> and \<^verbatim>\<open>Drop\<close> call; the order received is the order of the hand-overs on
  the channel.
\<close>

theorem dispatcher_one_at_a_time_in_order:
  assumes "rtranclp step (boot l e) s" and "writers e = 0"
  shows "writers (env s) \<le> 1
    \<and> writers (env s) = open_txns (worker s)
    \<and> received s = executed s @ in_flight (worker s)
    \<and> committed (env s) = committed (run_requests e (map snd (executed s)))
    \<and> (\<forall>i op. callers s i = Awaiting op \<longrightarrow> holder (worker s) = Some i)
    \<and> (\<forall>i op r. callers s i = Returned op r \<longrightarrow>
         (\<exists>k<length (executed s). executed s ! k = (i, op)
            \<and> r = fst (UpdateLocked (run_requests e (map snd (take k (executed s)))) op)))
    \<and> (\<forall>i c op. callers s i = Sending (Some c) op
                  \<and> LmdbEnv.updateWorkerChan (handler s) = Some c \<longrightarrow>
         (\<exists>s' r. rtranclp step s s' \<and> callers s' i = Returned op r
            \<and> executed s' = received s @ [(i, op)]))"
proof -
  from dispatcher_inv_reachable[OF assms] have inv: "dispatcher_inv e s" .
  then have a: "writers (env s) = open_txns (worker s)"
    and b: "received s = executed s @ in_flight (worker s)"
    and c: "committed (env s) = committed (run_requests e (map snd (executed s)))"
    and d: "\<forall>i op. callers s i = Awaiting op \<longrightarrow> holder (worker s) = Some i"
    and f: "\<forall>i op r. callers s i = Returned op r \<longrightarrow>
         (\<exists>k<length (executed s). executed s ! k = (i, op)
            \<and> r = fst (UpdateLocked (run_requests e (map snd (take k (executed s)))) op))"
    unfolding dispatcher_inv_def by blast+
  from a open_txns_le[of "worker s"] have a': "writers (env s) \<le> 1" by simp
  have g: "\<forall>i c op. callers s i = Sending (Some c) op
                  \<and> LmdbEnv.updateWorkerChan (handler s) = Some c \<longrightarrow>
         (\<exists>s' r. rtranclp step s s' \<and> callers s' i = Returned op r
            \<and> executed s' = received s @ [(i, op)])"
    using request_can_be_served[OF inv] by blast
  from a' a b c d f g show ?thesis by blast
qed


theorem dispatcher_one_at_a_time_in_order_witness:
  "received example_done = [(1, example_put [2]), (0, example_put [1])]
   \<and> executed example_done = received example_done
   \<and> writers (env example_done) = 0
   \<and> callers example_done 1 = Returned (example_put [2]) None
   \<and> callers example_done 0 = Returned (example_put [1]) None
   \<and> committed (env example_done) =
       committed (run_requests (example_Env [108] [0]) [example_put [2], example_put [1]])
   \<and> txn_Get (committed (env example_done)) 2 [107] = Inr [1]
   \<and> (\<exists>s' r. rtranclp step example_called s'
         \<and> callers s' 0 = Returned (example_put [1]) r
         \<and> executed s' = [(0, example_put [1])])"
proof -
  let ?e = "example_Env [108] [0]"
  let ?b = "boot example_handler ?e"
  let ?s1 = "?b\<lparr>callers := (callers ?b)(0 := Sending (Db.updateWorkerChan example_Db) (example_put [1]))\<rparr>"
  let ?s2 = "?s1\<lparr>callers := (callers ?s1)(1 := Sending (Db.updateWorkerChan example_Db) (example_put [2]))\<rparr>"
  let ?s3 = "served example_called 1 (example_put [2])"
  have 1: "step ?b ?s1" by (rule call_UpdateTxn) (simp add: boot_def)
  have 2: "step ?s1 ?s2" by (rule call_UpdateTxn) (simp add: boot_def)
  have eq: "?s2 = example_called"
    by (simp add: example_called_def example_Db_def boot_def)
  from 1 2 have "rtranclp step ?b ?s2" by simp
  then have rc: "rtranclp step ?b example_called" by (simp only: eq)
  have 3: "rtranclp step example_called ?s3"
    by (rule serve [where c = 0])
      (simp_all add: example_called_def boot_def example_handler_def)
  have 4: "rtranclp step ?s3 example_done"
    unfolding example_done_def
    by (rule serve [where c = 0])
      (simp_all add: served_def example_called_def boot_def example_handler_def)
  from rc 3 4 have rd: "rtranclp step ?b example_done" by simp
  have w: "writers ?e = 0" by (simp add: example_Env_def)
  have c0: "callers example_called 0 = Sending (Some 0) (example_put [1])"
    and ch: "LmdbEnv.updateWorkerChan (handler example_called) = Some 0"
    and r0: "received example_called = []"
    by (simp_all add: example_called_def boot_def example_handler_def)
  from dispatcher_one_at_a_time_in_order [OF rc w] c0 ch r0
  have p: "\<exists>s' r. rtranclp step example_called s'
         \<and> callers s' 0 = Returned (example_put [1]) r
         \<and> executed s' = [(0, example_put [1])]"
    by (metis append_Nil)
  have ex: "executed example_done = [(1, example_put [2]), (0, example_put [1])]"
    and re: "received example_done = [(1, example_put [2]), (0, example_put [1])]"
    by (simp_all add: example_done_def served_def example_called_def boot_def)
  from dispatcher_one_at_a_time_in_order [OF rd w] have
    cm: "committed (env example_done) =
           committed (run_requests ?e (map snd (executed example_done)))"
    and wr: "writers (env example_done) = open_txns (worker example_done)"
    by blast+
  from cm ex have cm': "committed (env example_done) =
       committed (run_requests ?e [example_put [2], example_put [1]])"
    by simp
  have wk: "worker example_done = Select"
    by (simp add: example_done_def served_def example_called_def boot_def)
  from wr wk have wr': "writers (env example_done) = 0" by simp
  have g: "txn_Get (committed (run_requests ?e [example_put [2], example_put [1]])) 2 [107] = Inr [1]"
    by (simp add: run_requests_def UpdateLocked_eq example_put_def txn_Put_def txn_Get_def
        example_Env_def lmdb_MaxKeySize_def)
  have c1: "callers example_done 1 = Returned (example_put [2]) None"
    and c0': "callers example_done 0 = Returned (example_put [1]) None"
    by (simp_all add: example_done_def served_def example_called_def boot_def
        UpdateLocked_eq example_put_def txn_Put_def lmdb_MaxKeySize_def)
  from re ex wr' c1 c0' cm' g p show ?thesis by simp
qed

text \<open>
  With the nil \<^verbatim>\<open>quitChan\<close> the quit branch of the \<^verbatim>\<open>select\<close> is never taken.
\<close>

lemma no_quit_step:
  assumes "step s s'" and "quitChan (handler s) = None"
    and "worker s \<noteq> Quit_Sync" and "worker s \<noteq> Quit_Close"
  shows "handler s' = handler s \<and> worker s' \<noteq> Quit_Sync \<and> worker s' \<noteq> Quit_Close
    \<and> synced (env s') = synced (env s) \<and> closed (env s') = closed (env s)
    \<and> ((\<forall>i. callers s i \<noteq> Closed) \<longrightarrow> (\<forall>i. callers s' i \<noteq> Closed))
    \<and> (callers s i = Closing \<longrightarrow> callers s' i = Closing)"
  using assms
  by (induction rule: step.induct) (auto simp add: txn_begin_def flags_txn_finish)

lemma no_quit_reachable:
  assumes "rtranclp step s s'" and "quitChan (handler s) = None"
    and "worker s \<noteq> Quit_Sync" and "worker s \<noteq> Quit_Close"
  shows "handler s' = handler s \<and> worker s' \<noteq> Quit_Sync \<and> worker s' \<noteq> Quit_Close
    \<and> synced (env s') = synced (env s) \<and> closed (env s') = closed (env s)
    \<and> ((\<forall>i. callers s i \<noteq> Closed) \<longrightarrow> (\<forall>i. callers s' i \<noteq> Closed))
    \<and> (callers s i = Closing \<longrightarrow> callers s' i = Closing)"
  using assms
proof (induction rule: rtranclp_induct)
  case base
  then show ?case by simp
next
  case (step y z)
  from step.IH[OF step.prems] have y: "handler y = handler s" "worker y \<noteq> Quit_Sync" "worker y \<noteq> Quit_Close"
    by simp_all
  from y step.prems have q: "quitChan (handler y) = None" by simp
  from no_quit_step[OF step.hyps(2) q y(2) y(3), of i] step.IH[OF step.prems] show ?case
    by simp
qed


subsection \<open>Shutdown\<close>

text \<open>
  Claim C2, on the code. \<^verbatim>\<open>NewLmdb\<close> never makes \<^verbatim>\<open>quitChan\<close>, so the handle it
  returns has the nil channel. In every state reached after \<^verbatim>\<open>NewLmdb\<close> has returned
  a handle: no call of \<^verbatim>\<open>Close\<close> has returned; the worker is not in its quit branch;
  \<^verbatim>\<open>Sync\<close> and \<^verbatim>\<open>Close\<close> of the environment have not been called; and a caller
  that is blocked in \<^verbatim>\<open>Close\<close> is blocked there in every later state.
\<close>

theorem Close_never_completes:
  assumes "NewLmdb eng config = (tr, Inr (l, e))"
    and "rtranclp step (boot l e) s"
  shows "quitChan l = None
    \<and> (\<forall>i. callers s i \<noteq> Closed)
    \<and> worker s \<noteq> Quit_Sync \<and> worker s \<noteq> Quit_Close
    \<and> synced (env s) = synced (found eng) \<and> closed (env s) = closed (found eng)
    \<and> (\<forall>i s'. callers s i = Closing \<and> rtranclp step s s' \<longrightarrow> callers s' i = Closing)"
proof -
  from NewLmdb_quitChan[OF assms(1)] have q: "quitChan (handler (boot l e)) = None"
    by (simp add: boot_def)
  have w: "worker (boot l e) \<noteq> Quit_Sync" "worker (boot l e) \<noteq> Quit_Close"
    by (simp_all add: boot_def)
  from no_quit_reachable[OF assms(2) q w] have
    h: "handler s = handler (boot l e)" and ws: "worker s \<noteq> Quit_Sync" "worker s \<noteq> Quit_Close"
    and f: "synced (env s) = synced e" "closed (env s) = closed e"
    and c: "\<forall>i. callers s i \<noteq> Closed"
    by (simp_all add: boot_def)
  from h q have qs: "quitChan (handler s) = None" by simp
  have stay: "callers s' i = Closing" if "callers s i = Closing" "rtranclp step s s'" for i s'
    using no_quit_reachable[OF that(2) qs ws, of i] that(1) by simp
  from q f c ws stay NewLmdb_env[OF assms(1)] show ?thesis
    by (simp add: boot_def)
qed

theorem Close_never_completes_witness:
  "\<exists>tr l e s. NewLmdb willing_engine example_config = (tr, Inr (l, e))
     \<and> rtranclp step (boot l e) s
     \<and> callers s 0 = Closing
     \<and> quitChan l = None
     \<and> (\<forall>i. callers s i \<noteq> Closed) \<and> \<not> synced (env s) \<and> \<not> closed (env s)"
proof -
  have ne: "Databases example_config \<noteq> []"
    by (simp add: example_config_def DefaultLmdbConfig_def)
  have wl: "\<forall>c. refuses willing_engine c = None" by (simp add: willing_engine_def)
  from NewLmdb_succeeds[OF wl ne] obtain tr l e where
    n: "NewLmdb willing_engine example_config = (tr, Inr (l, e))" by blast
  let ?b = "boot l e"
  let ?s = "?b\<lparr>callers := (callers ?b)(0 := Closing)\<rparr>"
  have "step ?b ?s" by (rule call_Close) (simp add: boot_def)
  then have r: "rtranclp step ?b ?s" by simp
  have c: "callers ?s 0 = Closing" by simp
  from Close_never_completes [OF n r] have
    "quitChan l = None" "\<forall>i. callers ?s i \<noteq> Closed"
    "synced (env ?s) = synced (found willing_engine)"
    "closed (env ?s) = closed (found willing_engine)"
    by blast+
  then have "quitChan l = None \<and> (\<forall>i. callers ?s i \<noteq> Closed) \<and> \<not> synced (env ?s) \<and> \<not> closed (env ?s)"
    by (simp add: willing_engine_def empty_Env_def)
  with n r c show ?thesis by blast
qed

subsection \<open>Reading back what was written\<close>

text \<open>
  Claim C1, on the code. With the default configuration (one database, a codec that
  round-trips), \<^verbatim>\<open>Put\<close> of the raw bytes \<open>[1, 2, 3]\<close> at the key \<open>k1\<close> stores them,
  and \<^verbatim>\<open>Get\<close> of the key then returns the empty slice and the nil error; \<^verbatim>\<open>Put\<close>
  of the value 5 stores its encoding \<open>[1, 5]\<close>, which decodes to 5, and \<^verbatim>\<open>Get\<close>
  returns the empty slice, which does not decode.
\<close>

theorem Get_after_Put_returns_no_bytes:
  "\<exists>tr l e s e1 e2.
     NewLmdb willing_engine example_config = (tr, Inr (l, e))
   \<and> GetSingleDatabase l = (Some s, None)
   \<and> Put s [107, 49] (Bytes [1, 2, 3]) e = Some (None, e1)
   \<and> txn_Get (committed e1) (dbi s) [107, 49] = Inr [1, 2, 3]
   \<and> Get s [107, 49] e1 = ([], None)
   \<and> Put s [107, 49] (Value 5) e = Some (None, e2)
   \<and> txn_Get (committed e2) (dbi s) [107, 49] = Inr [1, 5]
   \<and> tagged_Unmarshal 1 [1, 5] 0 = (None, 5)
   \<and> Get s [107, 49] e2 = ([], None)
   \<and> tagged_Unmarshal 1 [] 0 = (Some (ErrMsg ''wrong length''), 0)"
  by (simp add: NewLmdb_def example_config_def DefaultLmdbConfig_def willing_engine_def
      empty_Env_def Update_def UpdateLocked_eq txn_CreateDBI_def fresh_dbi_def
      GetSingleDatabase_def Put_Bytes_eq Put_def UpdateTxn_def txn_Put_def Get_eq txn_Get_def
      tagged_Marshal_def tagged_Unmarshal_def lmdb_MaxKeySize_def)

subsection \<open>The codec of a handle\<close>

text \<open>
  Claim C3, on the code. For a database whose entry gives its own codec (tag 1) in an
  environment with another codec (tag 2), the handle encodes and decodes with the codec of
  the environment: it encodes 7 as \<open>[2, 7]\<close> and refuses \<open>[1, 7]\<close>. With no codec at either
  level the handle has the nil functions, and \<^verbatim>\<open>Put\<close> of a value that is not a byte
  slice panics. (\<open>NewLmdb_handles\<close> above: every handle has the codec of the environment's
  configuration.)
\<close>

theorem per_database_codec_not_used:
  "\<exists>tr l e s tr' l' e' s'.
     NewLmdb willing_engine override_config = (tr, Inr (l, e))
   \<and> GetDatabase l ''a'' = Some s
   \<and> map_option (\<lambda>m. m 7) (DbConfig.Marshal (hd (Databases override_config))) = Some (Inr [1, 7])
   \<and> map_option (\<lambda>m. m 7) (Marshal override_config) = Some (Inr [2, 7])
   \<and> map_option (\<lambda>m. m 7) (Db.marshal s) = Some (Inr [2, 7])
   \<and> map_option (\<lambda>u. u [1, 7] 0) (Db.unmarshal s) = Some (Some (ErrMsg ''wrong tag''), 0)
   \<and> NewLmdb willing_engine bare_config = (tr', Inr (l', e'))
   \<and> GetDatabase l' ''a'' = Some s'
   \<and> Db.marshal s' = None \<and> Db.unmarshal s' = None
   \<and> Put s' [107] (Value 7) e' = Some (Some Panic, e')"
  by (simp add: NewLmdb_def override_config_def bare_config_def example_config_def
      DefaultLmdbConfig_def willing_engine_def empty_Env_def Update_def UpdateLocked_eq
      txn_CreateDBI_def fresh_dbi_def GetDatabase_def Put_def UpdateTxn_def
      tagged_Marshal_def tagged_Unmarshal_def)

end
